theory Spec2Isabelle
  imports Main "HOL-Library.Char_ord" "HOL-Library.List_Lexorder" "HOL-Library.Multiset"
begin

section \<open>Attendee model\<close>

text \<open>
  The embedding follows \<^verbatim>\<open>Table_Plans.py\<close>. Names are Python strings compared with
  \<^verbatim>\<open><\<close>; on \<^typ>\<open>string\<close> the order of \<^theory_text>\<open>List_Lexorder\<close> over
  \<^theory_text>\<open>Char_ord\<close> is the same lexicographic order. A \<^verbatim>\<open>Person\<close> object is a record
  of its five fields; the constructor raises \<^verbatim>\<open>ValueError\<close> for a sex other than
  \<^verbatim>\<open>'male'\<close> or \<^verbatim>\<open>'female'\<close>.
\<close>

datatype py_error = ValueError | IndexError

record person =
  name :: string
  sex :: string
  relations :: "string list"
  preferred :: "string list"
  meals :: "string list"

definition Person_init ::
  "string \<Rightarrow> string \<Rightarrow> string list \<Rightarrow> string list \<Rightarrow> string list \<Rightarrow> py_error + person" where
  "Person_init n s rs ps ms =
     (if s \<notin> {''male'', ''female''} then Inl ValueError
      else Inr \<lparr>name = n, sex = s, relations = rs, preferred = ps, meals = ms\<rparr>)"

definition is_related_to :: "person \<Rightarrow> person \<Rightarrow> bool" where
  "is_related_to self other_person \<longleftrightarrow> name other_person \<in> set (relations self)"

definition prefers :: "person \<Rightarrow> person \<Rightarrow> bool" where
  "prefers self other_person \<longleftrightarrow> name other_person \<in> set (preferred self)"

section \<open>Rotation equivalence\<close>

text \<open>
  \<^verbatim>\<open>are_arrangements_same\<close> compares names only. Its \<^verbatim>\<open>try\<close> block cannot raise: the
  lengths are equal and non-zero where it indexes, and every index is taken modulo the length.
\<close>

definition are_arrangements_same :: "person list \<Rightarrow> person list \<Rightarrow> bool" where
  "are_arrangements_same arr1 arr2 =
     (let n1 = length arr1; n2 = length arr2 in
      if n1 \<noteq> n2 then False
      else if n1 = 0 then True
      else (let first_person_arr1 = arr1 ! 0;
                possible_starts_in_arr2 =
                  filter (\<lambda>i. name (arr2 ! i) = name first_person_arr1) [0..<n2]
            in if possible_starts_in_arr2 = [] then False
               else list_ex (\<lambda>start_idx.
                      list_all (\<lambda>i. name (arr1 ! i) = name (arr2 ! ((start_idx + i) mod n1)))
                        [0..<n1])
                    possible_starts_in_arr2))"

lemma list_ex_filter_upt:
  "(if filter P [0..<n] = [] then False else list_ex R (filter P [0..<n])) \<longleftrightarrow> (\<exists>s<n. P s \<and> R s)"
  by (auto simp: list_ex_iff filter_empty_conv)

lemma list_all_upt: "list_all S [0..<n] \<longleftrightarrow> (\<forall>i<n. S i)"
  by (auto simp: list_all_iff)

lemma same_unfold:
  assumes "length a = length b" "a \<noteq> []"
  shows "are_arrangements_same a b \<longleftrightarrow>
      (\<exists>s<length b. name (b ! s) = name (a ! 0) \<and>
          (\<forall>i<length b. name (a ! i) = name (b ! ((s + i) mod length b))))"
proof -
  have ne: "length b \<noteq> 0" using assms by auto
  show ?thesis
    unfolding are_arrangements_same_def Let_def list_ex_filter_upt list_all_upt
    using assms ne by (simp only: if_False simp_thms)
qed

lemma same_iff:
  "are_arrangements_same a b \<longleftrightarrow>
     length a = length b \<and>
     (a = [] \<or> (\<exists>s<length b. \<forall>i<length a. name (a ! i) = name (b ! ((s + i) mod length a))))"
proof (cases "length a = length b \<and> a \<noteq> []")
  case False
  then show ?thesis by (auto simp: are_arrangements_same_def Let_def)
next
  case True
  then have n: "length a = length b" "0 < length b" "a \<noteq> []" by auto
  have first: "name (b ! s) = name (a ! 0)"
    if "\<forall>i<length b. name (a ! i) = name (b ! ((s + i) mod length b))" "s < length b" for s
  proof -
    from that(1) n(2) have "name (a ! 0) = name (b ! ((s + 0) mod length b))" by blast
    with that(2) show ?thesis by simp
  qed
  have "are_arrangements_same a b \<longleftrightarrow>
      (\<exists>s<length b. \<forall>i<length b. name (a ! i) = name (b ! ((s + i) mod length b)))"
    unfolding same_unfold[OF n(1) n(3)] using first by blast
  then show ?thesis using n by simp
qed


lemma same_rotate_right: "are_arrangements_same A (rotate k A)"
proof (cases "A = []")
  case True
  then show ?thesis by (simp add: same_iff)
next
  case False
  define n where "n = length A"
  have n: "0 < n" using False by (simp add: n_def)
  define s where "s = (n - k mod n) mod n"
  have s: "s < n" using n by (simp add: s_def)
  have ks: "(k + s) mod n = 0"
  proof -
    have "(k + s) mod n = (k + (n - k mod n)) mod n"
      unfolding s_def by (simp add: mod_add_right_eq)
    also have "\<dots> = (k mod n + (n - k mod n)) mod n"
      by (rule mod_add_left_eq[symmetric])
    also have "k mod n + (n - k mod n) = n"
      using n by (simp add: less_imp_le)
    finally show ?thesis by simp
  qed
  have "name (A ! i) = name (rotate k A ! ((s + i) mod n))" if "i < n" for i
  proof -
    have "(s + i) mod n < length A" using n by (simp add: n_def)
    then have "rotate k A ! ((s + i) mod n) = A ! ((k + (s + i) mod n) mod n)"
      by (simp add: nth_rotate n_def)
    also have "(k + (s + i) mod n) mod n = ((k + s) + i) mod n"
      by (simp add: mod_add_right_eq add.assoc)
    also have "\<dots> = ((k + s) mod n + i) mod n"
      by (simp add: mod_add_left_eq)
    also have "\<dots> = i" using ks that by simp
    finally show ?thesis by simp
  qed
  then show ?thesis
    using s unfolding same_iff n_def by auto
qed

lemma same_rotate_left: "are_arrangements_same (rotate k A) A"
proof (cases "A = []")
  case True
  then show ?thesis by (simp add: same_iff)
next
  case False
  define n where "n = length A"
  have n: "0 < n" using False by (simp add: n_def)
  have "name (rotate k A ! i) = name (A ! ((k mod n + i) mod n))" if "i < n" for i
    using that by (simp add: nth_rotate n_def mod_add_left_eq)
  moreover have "k mod n < n" using n by simp
  ultimately show ?thesis
    unfolding same_iff n_def by auto
qed

lemma same_names:
  assumes "are_arrangements_same A B"
  shows "name ` set A = name ` set B"
proof (cases "A = []")
  case True
  with assms show ?thesis by (simp add: same_iff)
next
  case False
  define n where "n = length A"
  from assms False obtain s where len: "length B = n" and s: "s < n"
    and m: "\<And>i. i < n \<Longrightarrow> name (A ! i) = name (B ! ((s + i) mod n))"
    unfolding same_iff n_def by auto
  have n: "0 < n" using s by simp
  show ?thesis
  proof (intro equalityI subsetI)
    fix x assume "x \<in> name ` set A"
    then obtain i where i: "i < n" "x = name (A ! i)"
      by (auto simp: in_set_conv_nth n_def)
    have "(s + i) mod n < length B" using n len by simp
    then have "B ! ((s + i) mod n) \<in> set B" by (rule nth_mem)
    with i m[OF i(1)] show "x \<in> name ` set B" by simp
  next
    fix x assume "x \<in> name ` set B"
    then obtain j where j: "j < n" "x = name (B ! j)"
      by (auto simp: in_set_conv_nth len)
    define i where "i = (j + (n - s)) mod n"
    have i: "i < n" using n by (simp add: i_def)
    have "(s + i) mod n = (s + (j + (n - s))) mod n"
      by (simp add: i_def mod_add_right_eq)
    also have "s + (j + (n - s)) = j + n" using s by simp
    also have "(j + n) mod n = j" using j(1) by simp
    finally have "name (A ! i) = x" using m[OF i] j(2) by simp
    moreover have "A ! i \<in> set A" using i by (simp add: n_def)
    ultimately show "x \<in> name ` set A" by blast
  qed
qed


section \<open>Arrangement search\<close>

text \<open>
  Scoring constants of the source (lower scores are tried first).
\<close>

definition BONUS_PREFERRED :: int where "BONUS_PREFERRED = - 1000"
definition PENALTY_RELATION :: int where "PENALTY_RELATION = 100"
definition PENALTY_SEX_VIOLATION :: int where "PENALTY_SEX_VIOLATION = 50"

type_synonym pair_ledger = "(string \<times> string) set"
type_synonym candidate = "int \<times> person \<times> bool"
type_synonym set_order = "person list \<Rightarrow> person list \<Rightarrow> person list"

definition canonical_pair :: "string \<Rightarrow> string \<Rightarrow> string \<times> string" where
  "canonical_pair name1 name2 = (if name1 < name2 then (name1, name2) else (name2, name1))"

text \<open>
  \<^verbatim>\<open>remaining_people\<close> is a Python \<^verbatim>\<open>set\<close> of \<^verbatim>\<open>Person\<close> objects, hashed by object
  identity. The model keeps its elements in a list (two objects with equal fields are two
  entries). The order in which Python iterates a set is not fixed by the language, and the
  same people can be iterated in one order by one call and in another order by the next, so
  the model takes it as the parameter \<open>order\<close>, asked once for every call of the search:
  \<open>order current_arrangement remaining_people\<close> is the order in which the loop of the call
  with that partial arrangement visits the set. Within one search a call is identified by
  its partial arrangement, so every course of iteration orders is some \<open>order\<close>.
  \<open>iterate\<close> lists the set in that order; for an \<open>order\<close> that permutes the set it is
  \<open>order\<close> itself (lemma \<open>iterate_permutation\<close>), and the filter only keeps the model total
  for any other function.
\<close>

definition iterate :: "set_order \<Rightarrow> person list \<Rightarrow> person list \<Rightarrow> person list" where
  "iterate order current_arrangement remaining_people =
     filter (\<lambda>p. p \<in> set remaining_people) (order current_arrangement remaining_people)"

text \<open>
  One pass of the loop over \<^verbatim>\<open>remaining_people\<close> (source lines 261 to 294): the hard
  exclusions, then the score; \<open>None\<close> when the person is not appended to
  \<^verbatim>\<open>possible_next_people\<close>.
\<close>

definition score_candidate ::
  "person option \<Rightarrow> pair_ledger \<Rightarrow> bool \<Rightarrow> person \<Rightarrow> candidate option" where
  "score_candidate person_seated_last seated_neighbour_pairs_overall sex_violation_already_used_up
       person_to_try =
     (case person_seated_last of
        None \<Rightarrow> Some (0, person_to_try, False)
      | Some l \<Rightarrow>
          (let current_pair = canonical_pair (name l) (name person_to_try);
               repeat_neighbour = (current_pair \<in> seated_neighbour_pairs_overall);
               same_sex = (\<not> repeat_neighbour \<and> sex l = sex person_to_try);
               is_not_allowed = (repeat_neighbour \<or> (same_sex \<and> sex_violation_already_used_up));
               will_cause_sex_violation_now = (same_sex \<and> \<not> sex_violation_already_used_up);
               score_sex = (if will_cause_sex_violation_now then PENALTY_SEX_VIOLATION else 0);
               score_rel = (if is_related_to l person_to_try \<or> is_related_to person_to_try l
                            then score_sex + PENALTY_RELATION else score_sex);
               current_score = (if prefers l person_to_try \<or> prefers person_to_try l
                                then score_rel + BONUS_PREFERRED else score_rel)
           in if is_not_allowed then None
              else Some (current_score, person_to_try, will_cause_sex_violation_now)))"

text \<open>
  The candidate list after \<^verbatim>\<open>possible_next_people.sort(key=_get_candidate_score)\<close>; Python's
  sort is stable, as \<open>sort_key\<close> is.
\<close>

definition possible_next_people ::
  "set_order \<Rightarrow> person list \<Rightarrow> person list \<Rightarrow> pair_ledger \<Rightarrow> bool \<Rightarrow> candidate list" where
  "possible_next_people order current_arrangement remaining_people seated used =
     (let person_seated_last =
            (if current_arrangement = [] then None else Some (last current_arrangement))
      in sort_key fst
           (List.map_filter (score_candidate person_seated_last seated used)
              (iterate order current_arrangement remaining_people)))"

text \<open>
  The loop over the sorted candidates: the first recursive call whose result is truthy (a
  non-empty list) is returned; an exception of a call propagates.
\<close>

fun first_found ::
  "('c \<Rightarrow> py_error + person list option) \<Rightarrow> 'c list \<Rightarrow> py_error + person list option" where
  "first_found f [] = Inr None"
| "first_found f (c # cs) =
     (case f c of
        Inl e \<Rightarrow> Inl e
      | Inr None \<Rightarrow> first_found f cs
      | Inr (Some found_plan) \<Rightarrow>
          if found_plan \<noteq> [] then Inr (Some found_plan) else first_found f cs)"

lemma first_found_cong [fundef_cong]:
  "xs = ys \<Longrightarrow> (\<And>x. x \<in> set ys \<Longrightarrow> f x = g x) \<Longrightarrow> first_found f xs = first_found g ys"
  by (induction ys arbitrary: xs) (auto split: sum.splits option.splits)

lemma score_candidate_person:
  "score_candidate l seated used p = Some (s, q, v) \<Longrightarrow> q = p"
  by (auto simp: score_candidate_def Let_def split: option.splits if_splits)

lemma possible_next_people_mem:
  assumes "(s, p, v) \<in> set (possible_next_people order cur rem seated used)"
  shows "p \<in> set rem"
proof -
  from assms obtain q where q: "q \<in> set (iterate order cur rem)"
    and sc: "score_candidate (if cur = [] then None else Some (last cur)) seated used q = Some (s, p, v)"
    by (auto simp: possible_next_people_def Let_def map_filter_def)
  from sc have "p = q" by (rule score_candidate_person)
  with q show ?thesis by (simp add: iterate_def)
qed

text \<open>
  \<^verbatim>\<open>_find_arrangement_backtrack\<close>. In the base case \<^verbatim>\<open>current_arrangement[0]\<close> raises
  \<^verbatim>\<open>IndexError\<close> on an empty arrangement (total 0). \<^verbatim>\<open>remaining_people - {person_added}\<close>
  removes the one entry of the person added. Each call removes a person of the set, so the
  recursion ends: the measure is the size of the set.
\<close>

function find_arrangement_backtrack ::
  "set_order \<Rightarrow> person list \<Rightarrow> person list \<Rightarrow> nat \<Rightarrow> person list list \<Rightarrow> pair_ledger \<Rightarrow> bool
     \<Rightarrow> py_error + person list option" where
  "find_arrangement_backtrack order current_arrangement remaining_people total_people_to_seat
       arrangements_already_found seated_neighbour_pairs_overall sex_violation_already_used_up =
     (if length current_arrangement = total_people_to_seat then
        (case current_arrangement of
           [] \<Rightarrow> Inl IndexError
         | first_person # _ \<Rightarrow>
             (let last_person = last current_arrangement;
                  final_pair = canonical_pair (name last_person) (name first_person)
              in if final_pair \<in> seated_neighbour_pairs_overall then Inr None
                 else if sex last_person = sex first_person \<and> sex_violation_already_used_up
                   then Inr None
                 else if list_ex (are_arrangements_same current_arrangement)
                           arrangements_already_found
                   then Inr None
                 else Inr (Some current_arrangement)))
      else
        first_found
          (\<lambda>(score, person_added, creates_violation_this_step).
             find_arrangement_backtrack order (current_arrangement @ [person_added])
               (remove1 person_added remaining_people) total_people_to_seat
               arrangements_already_found seated_neighbour_pairs_overall
               (sex_violation_already_used_up \<or> creates_violation_this_step))
          (possible_next_people order current_arrangement remaining_people
             seated_neighbour_pairs_overall sex_violation_already_used_up))"
  by pat_completeness auto
termination
proof (relation "measure (\<lambda>(order, cur, rem, rest). length rem)")
  show "wf (measure (\<lambda>(order, cur, rem, rest). length rem))" by simp
next
  fix order :: set_order and cur rem :: "person list" and total :: nat
    and found :: "person list list" and seated :: pair_ledger and used :: bool
    and c :: candidate and s :: int and y :: "person \<times> bool" and p :: person and v :: bool
  assume "c \<in> set (possible_next_people order cur rem seated used)" "(s, y) = c" "(p, v) = y"
  then have "p \<in> set rem" using possible_next_people_mem by metis
  then have "length (remove1 p rem) < length rem"
    using length_pos_if_in_set[of p rem] by (simp add: length_remove1)
  then show "((order, cur @ [p], remove1 p rem, total, found, seated, used \<or> v),
              (order, cur, rem, total, found, seated, used)) \<in> measure (\<lambda>(order, cur, rem, rest). length rem)"
    by simp
qed

declare find_arrangement_backtrack.simps [simp del]

lemma iterate_permutation:
  "mset (order cur rem) = mset rem \<Longrightarrow> iterate order cur rem = order cur rem"
proof -
  assume "mset (order cur rem) = mset rem"
  then have "set (order cur rem) = set rem" by (rule mset_eq_setD)
  then show ?thesis by (simp add: iterate_def)
qed

section \<open>Event planner\<close>

text \<open>
  \<^verbatim>\<open>seat_people\<close> keeps two variables across its loop over the meals: the dictionary of
  plans and the set of neighbour pairs. \<open>seat_meal\<close> is one pass of the loop body,
  \<open>seat_meals\<close> the loop, \<open>seat_people\<close> the function (it returns the dictionary).
  \<open>neighbours\<close> lists the pairs \<^verbatim>\<open>(arrangement[i], arrangement[(i + 1) % n])\<close> the
  recording loop visits (source lines 373 to 375), and \<open>record_pairs\<close> is that loop.
  \<open>arrangements_found_before\<close> is \<^verbatim>\<open>final_seating_arrangements.get(meal_name, [])\<close>.

  The registry \<^verbatim>\<open>all_people_info\<close> is a list of distinct \<^verbatim>\<open>Person\<close> objects, as the
  loader builds it, so \<^verbatim>\<open>set(attendees_this_meal)\<close> has the elements of the attendee list:
  the search receives that list and iterates it through \<open>order\<close>. The planner's loop
  builds a new set at every pass, so \<open>seat_meals\<close> takes one iteration order for each pass:
  \<open>orders k\<close> is that of pass \<open>k\<close>, and \<open>k\<close> only counts the passes. The printed
  progress messages are left out.
\<close>

record planner_state =
  final_seating_arrangements :: "string \<rightharpoonup> person list list"
  all_seated_neighbour_pairs_globally :: pair_ledger

definition attendees_this_meal :: "person list \<Rightarrow> string \<Rightarrow> person list" where
  "attendees_this_meal all_people_info meal_name =
     filter (\<lambda>p. meal_name \<in> set (meals p)) all_people_info"

definition neighbours :: "person list \<Rightarrow> (person \<times> person) list" where
  "neighbours arrangement =
     map (\<lambda>i. (arrangement ! i, arrangement ! ((i + 1) mod length arrangement)))
       [0..<length arrangement]"

definition record_pairs :: "person list \<Rightarrow> pair_ledger \<Rightarrow> pair_ledger" where
  "record_pairs arrangement seated =
     fold (\<lambda>(p1, p2). insert (canonical_pair (name p1) (name p2))) (neighbours arrangement) seated"

definition arrangements_found_before ::
  "(string \<rightharpoonup> person list list) \<Rightarrow> string \<Rightarrow> person list list" where
  "arrangements_found_before plans meal_name =
     (case plans meal_name of None \<Rightarrow> [] | Some arrs \<Rightarrow> arrs)"

definition seat_meal ::
  "set_order \<Rightarrow> person list \<Rightarrow> string \<Rightarrow> planner_state \<Rightarrow> py_error + planner_state" where
  "seat_meal order all_people_info meal_name st =
     (let attendees = attendees_this_meal all_people_info meal_name;
          num_attendees = length attendees;
          plans = final_seating_arrangements st
      in if num_attendees = 0 then Inr (st\<lparr>final_seating_arrangements := plans(meal_name \<mapsto> [])\<rparr>)
         else if num_attendees = 1
           then Inr (st\<lparr>final_seating_arrangements := plans(meal_name \<mapsto> [attendees])\<rparr>)
         else
           (let found_before = arrangements_found_before plans meal_name in
            case find_arrangement_backtrack order [] attendees num_attendees found_before
                   (all_seated_neighbour_pairs_globally st) False of
              Inl e \<Rightarrow> Inl e
            | Inr (Some current_best_arrangement) \<Rightarrow>
                if current_best_arrangement \<noteq> [] then
                  Inr \<lparr>final_seating_arrangements =
                         plans(meal_name \<mapsto> found_before @ [current_best_arrangement]),
                       all_seated_neighbour_pairs_globally =
                         record_pairs current_best_arrangement
                           (all_seated_neighbour_pairs_globally st)\<rparr>
                else if plans meal_name = None
                  then Inr (st\<lparr>final_seating_arrangements := plans(meal_name \<mapsto> [])\<rparr>)
                else Inr st
            | Inr None \<Rightarrow>
                if plans meal_name = None
                  then Inr (st\<lparr>final_seating_arrangements := plans(meal_name \<mapsto> [])\<rparr>)
                else Inr st))"

type_synonym run_order = "nat \<Rightarrow> set_order"

fun seat_meals ::
  "run_order \<Rightarrow> person list \<Rightarrow> nat \<Rightarrow> string list \<Rightarrow> planner_state
     \<Rightarrow> py_error + planner_state" where
  "seat_meals orders all_people_info k [] st = Inr st"
| "seat_meals orders all_people_info k (meal_name # rest) st =
     (case seat_meal (orders k) all_people_info meal_name st of
        Inl e \<Rightarrow> Inl e
      | Inr st' \<Rightarrow> seat_meals orders all_people_info (Suc k) rest st')"

definition initial_state :: planner_state where
  "initial_state = \<lparr>final_seating_arrangements = Map.empty,
                     all_seated_neighbour_pairs_globally = {}\<rparr>"

definition seat_people ::
  "run_order \<Rightarrow> person list \<Rightarrow> string list \<Rightarrow> py_error + (string \<rightharpoonup> person list list)" where
  "seat_people orders all_people_info meal_names_list =
     (case seat_meals orders all_people_info 0 meal_names_list initial_state of
        Inl e \<Rightarrow> Inl e
      | Inr st \<Rightarrow> Inr (final_seating_arrangements st))"

section \<open>Soundness of the search\<close>

fun chain_pairs :: "'a \<Rightarrow> 'a list \<Rightarrow> ('a \<times> 'a) list" where
  "chain_pairs l [] = []"
| "chain_pairs l (p # ps) = (l, p) # chain_pairs p ps"

lemma chain_pairs_append:
  "chain_pairs l (xs @ ys) = chain_pairs l xs @ chain_pairs (last (l # xs)) ys"
  by (induction xs arbitrary: l) auto

lemma length_chain_pairs [simp]: "length (chain_pairs l xs) = length xs"
  by (induction xs arbitrary: l) auto

lemma nth_chain_pairs:
  "i < length xs \<Longrightarrow> chain_pairs l xs ! i = ((l # xs) ! i, xs ! i)"
proof (induction xs arbitrary: l i)
  case Nil
  then show ?case by simp
next
  case (Cons x xs)
  then show ?case by (cases i) auto
qed

lemma neighbours_Cons:
  "neighbours (p # ps) = chain_pairs p ps @ [(last (p # ps), p)]"
proof (rule nth_equalityI)
  show "length (neighbours (p # ps)) = length (chain_pairs p ps @ [(last (p # ps), p)])"
    by (simp add: neighbours_def)
next
  fix i assume "i < length (neighbours (p # ps))"
  then have i: "i < Suc (length ps)" by (simp add: neighbours_def)
  show "neighbours (p # ps) ! i = (chain_pairs p ps @ [(last (p # ps), p)]) ! i"
  proof (cases "i < length ps")
    case True
    then have "neighbours (p # ps) ! i = ((p # ps) ! i, ps ! i)"
      using i by (simp add: neighbours_def del: upt_Suc)
    with True show ?thesis by (simp add: nth_append nth_chain_pairs)
  next
    case False
    with i have e: "i = length ps" by simp
    have "(p # ps) ! length ps = last (p # ps)"
      by (metis last_conv_nth length_Cons diff_Suc_1 list.distinct(1))
    then show ?thesis
      using e by (simp add: neighbours_def nth_append del: upt_Suc)
  qed
qed

lemma neighbours_Nil [simp]: "neighbours [] = []"
  by (simp add: neighbours_def)


definition same_sex_count :: "(person \<times> person) list \<Rightarrow> nat" where
  "same_sex_count ps = length (filter (\<lambda>(a, b). sex a = sex b) ps)"

definition fresh_pairs :: "pair_ledger \<Rightarrow> (person \<times> person) list \<Rightarrow> bool" where
  "fresh_pairs seated ps \<longleftrightarrow> list_all (\<lambda>(a, b). canonical_pair (name a) (name b) \<notin> seated) ps"

lemma same_sex_count_simps [simp]:
  "same_sex_count [] = 0"
  "same_sex_count ((a, b) # ps) = (if sex a = sex b then 1 else 0) + same_sex_count ps"
  "same_sex_count (ps @ qs) = same_sex_count ps + same_sex_count qs"
  by (simp_all add: same_sex_count_def)

lemma fresh_pairs_simps [simp]:
  "fresh_pairs seated []"
  "fresh_pairs seated ((a, b) # ps) \<longleftrightarrow>
     canonical_pair (name a) (name b) \<notin> seated \<and> fresh_pairs seated ps"
  "fresh_pairs seated (ps @ qs) \<longleftrightarrow> fresh_pairs seated ps \<and> fresh_pairs seated qs"
  by (simp_all add: fresh_pairs_def)

lemma first_found_Some:
  "first_found f cs = Inr (Some plan) \<Longrightarrow> \<exists>c\<in>set cs. f c = Inr (Some plan) \<and> plan \<noteq> []"
  by (induction cs) (auto split: sum.splits option.splits if_splits)

lemma first_found_Inl:
  "first_found f cs = Inl e \<Longrightarrow> \<exists>c\<in>set cs. f c = Inl e"
  by (induction cs) (auto split: sum.splits option.splits if_splits)

lemma candidate_facts:
  assumes "(s, p, v) \<in> set (possible_next_people order cur rem seated used)" "cur \<noteq> []"
  shows "canonical_pair (name (last cur)) (name p) \<notin> seated"
    and "sex (last cur) = sex p \<Longrightarrow> \<not> used \<and> v"
    and "sex (last cur) \<noteq> sex p \<Longrightarrow> \<not> v"
proof -
  from assms obtain q where
    sc: "score_candidate (Some (last cur)) seated used q = Some (s, p, v)"
    by (auto simp: possible_next_people_def Let_def map_filter_def)
  from sc have pq: "p = q" by (rule score_candidate_person)
  from sc show "canonical_pair (name (last cur)) (name p) \<notin> seated"
    unfolding pq by (auto simp: score_candidate_def Let_def split: if_splits)
  from sc show "sex (last cur) = sex p \<Longrightarrow> \<not> used \<and> v"
    unfolding pq by (auto simp: score_candidate_def Let_def split: if_splits)
  from sc show "sex (last cur) \<noteq> sex p \<Longrightarrow> \<not> v"
    unfolding pq by (auto simp: score_candidate_def Let_def split: if_splits)
qed

lemma first_candidate_facts:
  assumes "(s, p, v) \<in> set (possible_next_people order [] rem seated used)"
  shows "\<not> v"
proof -
  from assms obtain q where "score_candidate None seated used q = Some (s, p, v)"
    by (auto simp: possible_next_people_def Let_def map_filter_def)
  then show ?thesis by (simp add: score_candidate_def)
qed

definition extension_ok ::
  "person list \<Rightarrow> person list \<Rightarrow> nat \<Rightarrow> person list list \<Rightarrow> pair_ledger \<Rightarrow> bool
     \<Rightarrow> person list \<Rightarrow> person list \<Rightarrow> bool" where
  "extension_ok cur rem tot found seated used plan ext \<longleftrightarrow>
     plan = cur @ ext \<and> length plan = tot \<and> mset ext \<subseteq># mset rem
     \<and> fresh_pairs seated (chain_pairs (last cur) ext @ [(last plan, hd cur)])
     \<and> same_sex_count (chain_pairs (last cur) ext @ [(last plan, hd cur)])
          + (if used then 1 else 0) \<le> 1
     \<and> \<not> list_ex (are_arrangements_same plan) found"

lemma backtrack_base:
  assumes "length cur = tot" "cur \<noteq> []"
    and "find_arrangement_backtrack order cur rem tot found seated used = Inr (Some plan)"
  shows "extension_ok cur rem tot found seated used plan []"
proof -
  from assms(2) obtain f fs where c: "cur = f # fs" by (cases cur) auto
  from assms(3) show ?thesis
    unfolding find_arrangement_backtrack.simps[of order cur rem tot found seated used]
    using assms(1) unfolding c
    by (auto simp: Let_def extension_ok_def split: if_splits)
qed

lemma backtrack_step:
  assumes "length cur \<noteq> tot"
    and "find_arrangement_backtrack order cur rem tot found seated used = Inr (Some plan)"
  shows "\<exists>s p v. (s, p, v) \<in> set (possible_next_people order cur rem seated used)
           \<and> find_arrangement_backtrack order (cur @ [p]) (remove1 p rem) tot found seated
                (used \<or> v) = Inr (Some plan)"
proof -
  from assms have "first_found
          (\<lambda>(score, person_added, creates_violation_this_step).
             find_arrangement_backtrack order (cur @ [person_added])
               (remove1 person_added rem) tot found seated
               (used \<or> creates_violation_this_step))
          (possible_next_people order cur rem seated used) = Inr (Some plan)"
    unfolding find_arrangement_backtrack.simps[of order cur rem tot found seated used]
    by simp
  from first_found_Some[OF this] show ?thesis by fastforce
qed

lemma extension_ok_step:
  assumes c: "(s, p, v) \<in> set (possible_next_people order cur rem seated used)"
    and ne: "cur \<noteq> []"
    and ih: "extension_ok (cur @ [p]) (remove1 p rem) tot found seated (used \<or> v) plan ext"
  shows "extension_ok cur rem tot found seated used plan (p # ext)"
proof -
  have pr: "p \<in> set rem" using c by (rule possible_next_people_mem)
  from ih have sub: "mset ext \<subseteq># mset rem - {#p#}" by (simp add: extension_ok_def)
  have m: "mset (p # ext) \<subseteq># mset rem"
    using pr sub by (simp add: insert_subset_eq_iff)
  note f = candidate_facts[OF c ne]
  have hd: "hd (cur @ [p]) = hd cur" using ne by simp
  have l: "last (cur @ [p]) = p" by simp
  from ih have fr: "fresh_pairs seated (chain_pairs p ext @ [(last plan, hd cur)])"
    unfolding extension_ok_def hd l by blast
  from ih have cnt: "same_sex_count (chain_pairs p ext @ [(last plan, hd cur)])
          + (if used \<or> v then 1 else 0) \<le> 1"
    unfolding extension_ok_def hd l by blast
  from ih have rest: "plan = cur @ p # ext" "length plan = tot"
      "\<not> list_ex (are_arrangements_same plan) found"
    unfolding extension_ok_def append_assoc append_Cons append_Nil by blast+
  have cnt': "same_sex_count (chain_pairs (last cur) (p # ext) @ [(last plan, hd cur)])
          + (if used then 1 else 0) \<le> 1"
  proof (cases "sex (last cur) = sex p")
    case True
    with f(2) have "\<not> used" "v" by auto
    with cnt True show ?thesis by simp
  next
    case False
    with f(3) have "\<not> v" by simp
    with cnt False show ?thesis by simp
  qed
  show ?thesis
    unfolding extension_ok_def using m fr f(1) cnt' rest by simp
qed

lemma backtrack_sound:
  "find_arrangement_backtrack order cur rem tot found seated used = Inr (Some plan)
     \<Longrightarrow> cur \<noteq> [] \<Longrightarrow> \<exists>ext. extension_ok cur rem tot found seated used plan ext"
proof (induction order cur rem tot found seated used
    rule: find_arrangement_backtrack.induct)
  case (1 order cur rem tot found seated used)
  show ?case
  proof (cases "length cur = tot")
    case True
    from backtrack_base[OF True "1.prems"(2) "1.prems"(1)] show ?thesis ..
  next
    case False
    from backtrack_step[OF False "1.prems"(1)] obtain s p v
      where c: "(s, p, v) \<in> set (possible_next_people order cur rem seated used)"
        and r: "find_arrangement_backtrack order (cur @ [p]) (remove1 p rem) tot found seated
                (used \<or> v) = Inr (Some plan)"
      by blast
    have "\<exists>ext. extension_ok (cur @ [p]) (remove1 p rem) tot found seated (used \<or> v) plan ext"
      by (rule "1.IH"[OF False c refl refl r]) simp
    then obtain ext
      where "extension_ok (cur @ [p]) (remove1 p rem) tot found seated (used \<or> v) plan ext" ..
    from extension_ok_step[OF c "1.prems"(2) this] show ?thesis ..
  qed
qed

lemma search_sound:
  assumes "find_arrangement_backtrack order [] rem tot found seated False = Inr (Some plan)"
  shows "length plan = tot \<and> plan \<noteq> [] \<and> mset plan \<subseteq># mset rem
         \<and> fresh_pairs seated (neighbours plan) \<and> same_sex_count (neighbours plan) \<le> 1
         \<and> \<not> list_ex (are_arrangements_same plan) found"
proof -
  have t: "length ([]::person list) \<noteq> tot"
  proof
    assume "length ([]::person list) = tot"
    with assms show False
      unfolding find_arrangement_backtrack.simps[of order "[]" rem tot found seated False]
      by simp
  qed
  from backtrack_step[OF t assms] obtain s p v
    where c: "(s, p, v) \<in> set (possible_next_people order [] rem seated False)"
      and r: "find_arrangement_backtrack order ([] @ [p]) (remove1 p rem) tot found seated
                (False \<or> v) = Inr (Some plan)"
    by blast
  have v: "\<not> v" using c by (rule first_candidate_facts)
  have pr: "p \<in> set rem" using c by (rule possible_next_people_mem)
  from r v have r': "find_arrangement_backtrack order [p] (remove1 p rem) tot found seated
                False = Inr (Some plan)" by simp
  from backtrack_sound[OF r'] obtain ext
    where e: "extension_ok [p] (remove1 p rem) tot found seated False plan ext" by auto
  then have plan: "plan = p # ext" by (simp add: extension_ok_def)
  from e have sub: "mset ext \<subseteq># mset rem - {#p#}" by (simp add: extension_ok_def)
  have m: "mset plan \<subseteq># mset rem"
    unfolding plan using pr sub by (simp add: insert_subset_eq_iff)
  have nb: "neighbours plan = chain_pairs p ext @ [(last plan, p)]"
    unfolding plan by (rule neighbours_Cons)
  from e show ?thesis
    unfolding nb using m by (simp add: extension_ok_def plan)
qed

lemma backtrack_no_error:
  "cur \<noteq> [] \<or> tot \<noteq> 0 \<Longrightarrow>
     find_arrangement_backtrack order cur rem tot found seated used \<noteq> Inl e"
proof (induction order cur rem tot found seated used rule: find_arrangement_backtrack.induct)
  case (1 order cur rem tot found seated used)
  show ?case
  proof (cases "length cur = tot")
    case True
    with "1.prems" obtain f fs where "cur = f # fs" by (cases cur) auto
    with True show ?thesis
      unfolding find_arrangement_backtrack.simps[of order cur rem tot found seated used]
      by (simp add: Let_def)
  next
    case False
    show ?thesis
    proof
      assume "find_arrangement_backtrack order cur rem tot found seated used = Inl e"
      with False have "first_found
          (\<lambda>(score, person_added, creates_violation_this_step).
             find_arrangement_backtrack order (cur @ [person_added])
               (remove1 person_added rem) tot found seated
               (used \<or> creates_violation_this_step))
          (possible_next_people order cur rem seated used) = Inl e"
        unfolding find_arrangement_backtrack.simps[of order cur rem tot found seated used]
        by simp
      from first_found_Inl[OF this] obtain s p v
        where c: "(s, p, v) \<in> set (possible_next_people order cur rem seated used)"
          and r: "find_arrangement_backtrack order (cur @ [p]) (remove1 p rem) tot found seated
                (used \<or> v) = Inl e"
        by fastforce
      have "find_arrangement_backtrack order (cur @ [p]) (remove1 p rem) tot found seated
                (used \<or> v) \<noteq> Inl e"
        by (rule "1.IH"[OF False c refl refl]) simp
      with r show False by contradiction
    qed
  qed
qed

lemma search_result_cases:
  assumes "tot \<noteq> 0"
  obtains (found) arr where
      "find_arrangement_backtrack order [] rem tot found seated False = Inr (Some arr)"
      "arr \<noteq> []"
    | (failed) "find_arrangement_backtrack order [] rem tot found seated False = Inr None"
proof (cases "find_arrangement_backtrack order [] rem tot found seated False")
  case (Inl e)
  with backtrack_no_error[of "[]" tot order rem found seated False e] assms show ?thesis by simp
next
  case (Inr r)
  show ?thesis
  proof (cases r)
    case None
    with Inr failed show ?thesis by simp
  next
    case (Some arr)
    with Inr search_sound[of order rem tot found seated arr] found show ?thesis by simp
  qed
qed

section \<open>One pass of the planner's loop\<close>

lemma fold_insert_image: "fold (\<lambda>x. insert (f x)) xs A = A \<union> f ` set xs"
  by (induction xs arbitrary: A) auto

definition pair_names :: "person \<times> person \<Rightarrow> string \<times> string" where
  "pair_names = (\<lambda>(p1, p2). canonical_pair (name p1) (name p2))"

lemma record_pairs_eq:
  "record_pairs arr seated = seated \<union> pair_names ` set (neighbours arr)"
proof -
  have "(\<lambda>(p1, p2). insert (canonical_pair (name p1) (name p2))) = (\<lambda>x. insert (pair_names x))"
    by (auto simp: pair_names_def fun_eq_iff)
  then show ?thesis by (simp add: record_pairs_def fold_insert_image)
qed

lemma fresh_pairs_iff:
  "fresh_pairs seated ps \<longleftrightarrow> pair_names ` set ps \<inter> seated = {}"
  by (auto simp: fresh_pairs_def list_all_iff pair_names_def)

lemma seat_meal_empty:
  "length (attendees_this_meal people m) = 0 \<Longrightarrow>
     seat_meal order people m st =
       Inr (st\<lparr>final_seating_arrangements := (final_seating_arrangements st)(m \<mapsto> [])\<rparr>)"
  by (simp add: seat_meal_def)

lemma seat_meal_single:
  "length (attendees_this_meal people m) = 1 \<Longrightarrow>
     seat_meal order people m st =
       Inr (st\<lparr>final_seating_arrangements :=
                (final_seating_arrangements st)(m \<mapsto> [attendees_this_meal people m])\<rparr>)"
  by (auto simp: seat_meal_def Let_def)

lemma seat_meal_found:
  assumes "2 \<le> length (attendees_this_meal people m)"
    and "find_arrangement_backtrack order [] (attendees_this_meal people m)
           (length (attendees_this_meal people m))
           (arrangements_found_before (final_seating_arrangements st) m)
           (all_seated_neighbour_pairs_globally st) False = Inr (Some arr)"
  shows "seat_meal order people m st =
       Inr \<lparr>final_seating_arrangements = (final_seating_arrangements st)
               (m \<mapsto> arrangements_found_before (final_seating_arrangements st) m @ [arr]),
            all_seated_neighbour_pairs_globally =
               record_pairs arr (all_seated_neighbour_pairs_globally st)\<rparr>"
proof -
  from search_sound[OF assms(2)] have "arr \<noteq> []" by simp
  with assms show ?thesis by (auto simp: seat_meal_def Let_def)
qed

lemma seat_meal_failed:
  assumes "2 \<le> length (attendees_this_meal people m)"
    and "find_arrangement_backtrack order [] (attendees_this_meal people m)
           (length (attendees_this_meal people m))
           (arrangements_found_before (final_seating_arrangements st) m)
           (all_seated_neighbour_pairs_globally st) False = Inr None"
  shows "seat_meal order people m st =
       Inr (if final_seating_arrangements st m = None
            then st\<lparr>final_seating_arrangements := (final_seating_arrangements st)(m \<mapsto> [])\<rparr>
            else st)"
  using assms by (auto simp: seat_meal_def Let_def)

section \<open>Properties of the planner's loop\<close>

lemma seat_meal_total: "\<exists>st'. seat_meal order people m st = Inr st'"
proof -
  consider "length (attendees_this_meal people m) = 0"
    | "length (attendees_this_meal people m) = 1"
    | "2 \<le> length (attendees_this_meal people m)" by linarith
  then show ?thesis
  proof cases
    case 1
    then show ?thesis by (simp add: seat_meal_empty)
  next
    case 2
    then show ?thesis by (simp add: seat_meal_single)
  next
    case 3
    then have nz: "length (attendees_this_meal people m) \<noteq> 0" by linarith
    show ?thesis
    proof (rule search_result_cases[OF nz, of order "attendees_this_meal people m"
            "arrangements_found_before (final_seating_arrangements st) m"
            "all_seated_neighbour_pairs_globally st"])
      fix arr
      assume "find_arrangement_backtrack order [] (attendees_this_meal people m)
           (length (attendees_this_meal people m))
           (arrangements_found_before (final_seating_arrangements st) m)
           (all_seated_neighbour_pairs_globally st) False = Inr (Some arr)"
      from seat_meal_found[OF 3 this] show ?thesis by blast
    next
      assume "find_arrangement_backtrack order [] (attendees_this_meal people m)
           (length (attendees_this_meal people m))
           (arrangements_found_before (final_seating_arrangements st) m)
           (all_seated_neighbour_pairs_globally st) False = Inr None"
      from seat_meal_failed[OF 3 this] show ?thesis by blast
    qed
  qed
qed

lemma seat_meals_total: "\<exists>st'. seat_meals orders people k ms st = Inr st'"
proof (induction ms arbitrary: st k)
  case Nil
  show ?case by simp
next
  case (Cons m ms)
  from seat_meal_total obtain st1 where "seat_meal (orders k) people m st = Inr st1" by blast
  with Cons[of "Suc k" st1] show ?case by simp
qed

lemma seat_meals_invariant:
  assumes step: "\<And>order m st st'. P st \<Longrightarrow> seat_meal order people m st = Inr st' \<Longrightarrow> P st'"
    and "P st" "seat_meals orders people k ms st = Inr st'"
  shows "P st'"
  using assms(2,3)
proof (induction ms arbitrary: st k)
  case Nil
  then show ?case by simp
next
  case (Cons m ms)
  from seat_meal_total obtain st1 where s: "seat_meal (orders k) people m st = Inr st1" by blast
  with Cons.prems(2) have "seat_meals orders people (Suc k) ms st1 = Inr st'" by simp
  moreover have "P st1" using step Cons.prems(1) s by blast
  ultimately show ?case by (rule Cons.IH[rotated])
qed

lemma neighbours_mem:
  assumes "x \<in> set (neighbours xs)"
  shows "fst x \<in> set xs \<and> snd x \<in> set xs"
proof -
  from assms obtain i where i: "i < length xs"
    and x: "x = (xs ! i, xs ! ((i + 1) mod length xs))"
    unfolding neighbours_def set_map set_upt by fastforce
  from i have "0 < length xs" by linarith
  then have "(i + 1) mod length xs < length xs" by (rule mod_less_divisor)
  then have "xs ! ((i + 1) mod length xs) \<in> set xs" by (rule nth_mem)
  moreover have "xs ! i \<in> set xs" using i by (rule nth_mem)
  ultimately show ?thesis unfolding x fst_conv snd_conv by blast
qed

lemma length_neighbours [simp]: "length (neighbours xs) = length xs"
  by (simp add: neighbours_def)

lemma same_sex_all:
  assumes "\<forall>p\<in>set xs. \<forall>q\<in>set xs. sex p = sex q"
  shows "same_sex_count (neighbours xs) = length xs"
proof -
  have "\<forall>x\<in>set (neighbours xs). (\<lambda>(a, b). sex a = sex b) x"
  proof
    fix x assume "x \<in> set (neighbours xs)"
    from neighbours_mem[OF this] assms have "sex (fst x) = sex (snd x)" by blast
    then show "(\<lambda>(a, b). sex a = sex b) x" by (simp add: case_prod_beta)
  qed
  then have "filter (\<lambda>(a, b). sex a = sex b) (neighbours xs) = neighbours xs"
    by (rule iffD2[OF filter_id_conv])
  then show ?thesis by (simp add: same_sex_count_def)
qed

lemma same_sex_search_fails:
  assumes "2 \<le> tot" and "\<forall>p\<in>set rem. \<forall>q\<in>set rem. sex p = sex q"
  shows "find_arrangement_backtrack order [] rem tot found seated False = Inr None"
proof -
  from assms(1) have nz: "tot \<noteq> 0" by linarith
  show ?thesis
  proof (rule search_result_cases[OF nz, of order rem found seated])
    fix arr
    assume r: "find_arrangement_backtrack order [] rem tot found seated False = Inr (Some arr)"
    note snd = search_sound[OF r]
    from snd have len: "length arr = tot" by (elim conjE)
    from snd have sub: "mset arr \<subseteq># mset rem" by (elim conjE)
    from snd have cnt: "same_sex_count (neighbours arr) \<le> 1" by (elim conjE)
    from sub have "set_mset (mset arr) \<subseteq> set_mset (mset rem)" by (rule set_mset_mono)
    then have "set arr \<subseteq> set rem" by simp
    with assms(2) have "\<forall>p\<in>set arr. \<forall>q\<in>set arr. sex p = sex q" by blast
    then have "same_sex_count (neighbours arr) = length arr" by (rule same_sex_all)
    with cnt assms(1) len have False by linarith
    then show ?thesis ..
  next
    assume "find_arrangement_backtrack order [] rem tot found seated False = Inr None"
    then show ?thesis .
  qed
qed

section \<open>Example registry\<close>

definition alice :: person where
  "alice = \<lparr>name = ''Alice'', sex = ''female'', relations = [], preferred = [], meals = [''m'']\<rparr>"

definition bob :: person where
  "bob = \<lparr>name = ''Bob'', sex = ''male'', relations = [], preferred = [], meals = [''m'']\<rparr>"

definition carol :: person where
  "carol = \<lparr>name = ''Carol'', sex = ''female'', relations = [], preferred = [], meals = [''m'']\<rparr>"

definition dave :: person where
  "dave = \<lparr>name = ''Dave'', sex = ''male'', relations = [], preferred = [], meals = [''m'']\<rparr>"

text \<open>
  Two iteration orders for the examples: every call visits the remaining people in the
  order of the registry, or every call visits them in the reverse of it. \<open>every_pass\<close>
  gives every pass of the planner's loop the same order.
\<close>

definition input_order :: set_order where
  "input_order current_arrangement remaining_people = remaining_people"

definition reverse_order :: set_order where
  "reverse_order current_arrangement remaining_people = rev remaining_people"

definition every_pass :: "set_order \<Rightarrow> run_order" where
  "every_pass order k = order"

lemma every_pass_simp [simp]: "every_pass order k = order"
  by (simp add: every_pass_def)

lemma attendees_example3:
  "attendees_this_meal [alice, bob, carol] ''m'' = [alice, bob, carol]"
  by (simp add: attendees_this_meal_def alice_def bob_def carol_def)

lemma attendees_example2:
  "attendees_this_meal [alice, bob] ''m'' = [alice, bob]"
  by (simp add: attendees_this_meal_def alice_def bob_def)

lemma search_example3:
  "find_arrangement_backtrack input_order [] [alice, bob, carol] 3 [] {} False
     = Inr (Some [alice, bob, carol])"
  by code_simp

lemma search_example3_rev:
  "find_arrangement_backtrack reverse_order [] [alice, bob, carol] 3 [] {} False
     = Inr (Some [carol, bob, alice])"
  by code_simp

lemma search_example2:
  "find_arrangement_backtrack input_order [] [alice, bob] 2 [] {} False = Inr (Some [alice, bob])"
  by code_simp

lemma search_example2_again:
  "find_arrangement_backtrack input_order [] [alice, bob] 2 [[alice, bob]] {(''Alice'', ''Bob'')} False
     = Inr None"
  by code_simp

lemma record_pairs_example2: "record_pairs [alice, bob] {} = {(''Alice'', ''Bob'')}"
  by code_simp

lemma neighbours_example3:
  "neighbours [alice, bob, carol] = [(alice, bob), (bob, carol), (carol, alice)]"
  by code_simp

definition state_after_first :: planner_state where
  "state_after_first =
     \<lparr>final_seating_arrangements = [''m'' \<mapsto> [[alice, bob]]],
      all_seated_neighbour_pairs_globally = {(''Alice'', ''Bob'')}\<rparr>"

lemma length_example2: "length [alice, bob] = 2"
  by simp

lemma length_example3: "length [alice, bob, carol] = 3"
  by simp

lemma initial_state_simps:
  "final_seating_arrangements initial_state = Map.empty"
  "all_seated_neighbour_pairs_globally initial_state = {}"
  "arrangements_found_before Map.empty m = []"
  by (simp_all add: initial_state_def arrangements_found_before_def)

lemma state_after_first_simps:
  "final_seating_arrangements state_after_first = [''m'' \<mapsto> [[alice, bob]]]"
  "all_seated_neighbour_pairs_globally state_after_first = {(''Alice'', ''Bob'')}"
  "arrangements_found_before [''m'' \<mapsto> [[alice, bob]]] ''m'' = [[alice, bob]]"
  by (simp_all add: state_after_first_def arrangements_found_before_def)

lemma seat_meal_example2:
  "seat_meal input_order [alice, bob] ''m'' initial_state = Inr state_after_first"
proof -
  have two: "2 \<le> length (attendees_this_meal [alice, bob] ''m'')"
    by (simp add: attendees_example2)
  have s: "find_arrangement_backtrack input_order [] (attendees_this_meal [alice, bob] ''m'')
           (length (attendees_this_meal [alice, bob] ''m''))
           (arrangements_found_before (final_seating_arrangements initial_state) ''m'')
           (all_seated_neighbour_pairs_globally initial_state) False = Inr (Some [alice, bob])"
    by (simp only: attendees_example2 length_example2 initial_state_simps search_example2)
  show ?thesis
    unfolding seat_meal_found[OF two s]
    by (simp add: initial_state_simps record_pairs_example2 state_after_first_def)
qed

lemma seat_meal_example2_again:
  "seat_meal input_order [alice, bob] ''m'' state_after_first = Inr state_after_first"
proof -
  have two: "2 \<le> length (attendees_this_meal [alice, bob] ''m'')"
    by (simp add: attendees_example2)
  have s: "find_arrangement_backtrack input_order [] (attendees_this_meal [alice, bob] ''m'')
           (length (attendees_this_meal [alice, bob] ''m''))
           (arrangements_found_before (final_seating_arrangements state_after_first) ''m'')
           (all_seated_neighbour_pairs_globally state_after_first) False = Inr None"
    by (simp only: attendees_example2 length_example2 state_after_first_simps
        search_example2_again)
  show ?thesis
    unfolding seat_meal_failed[OF two s]
    by (simp add: state_after_first_simps)
qed


text \<open>
  Claim C4. The rotation check accepts an arrangement paired with any of its rotations, in
  either argument order; it rejects two arrangements of different lengths and two
  arrangements whose sets of attendee identities (names) differ, hence also two arrangements
  of different sets of people whenever names identify the people involved; two empty
  arrangements are the same.
\<close>

theorem are_arrangements_same_rotation:
  "are_arrangements_same A (rotate k A) \<and> are_arrangements_same (rotate k A) A
   \<and> (length A \<noteq> length B \<longrightarrow> \<not> are_arrangements_same A B)
   \<and> (name ` set A \<noteq> name ` set C \<longrightarrow> \<not> are_arrangements_same A C)
   \<and> (inj_on name (set A \<union> set C) \<longrightarrow> set A \<noteq> set C \<longrightarrow> \<not> are_arrangements_same A C)
   \<and> are_arrangements_same [] []"
proof (intro conjI impI)
  show "are_arrangements_same A (rotate k A)" by (rule same_rotate_right)
  show "are_arrangements_same (rotate k A) A" by (rule same_rotate_left)
  show "\<not> are_arrangements_same A B" if "length A \<noteq> length B"
    using that by (simp add: same_iff)
  show "\<not> are_arrangements_same A C" if "name ` set A \<noteq> name ` set C"
    using that same_names by blast
  show "\<not> are_arrangements_same A C" if i: "inj_on name (set A \<union> set C)" and n: "set A \<noteq> set C"
  proof
    assume "are_arrangements_same A C"
    then have "name ` set A = name ` set C" by (rule same_names)
    moreover have "set A \<subseteq> set A \<union> set C" "set C \<subseteq> set A \<union> set C" by simp_all
    ultimately have "set A = set C" using i by (simp only: inj_on_image_eq_iff)
    with n show False by contradiction
  qed
  show "are_arrangements_same [] []" by (simp add: same_iff)
qed

theorem are_arrangements_same_rotation_witness:
  "length [alice, bob, carol] \<noteq> length [alice, bob]
   \<and> name ` set [alice, bob, carol] \<noteq> name ` set [alice, bob, bob]
   \<and> inj_on name (set [alice, bob, carol] \<union> set [alice, bob, bob])
   \<and> set [alice, bob, carol] \<noteq> set [alice, bob, bob]
   \<and> are_arrangements_same [alice, bob, carol] (rotate 2 [alice, bob, carol])
   \<and> are_arrangements_same (rotate 2 [alice, bob, carol]) [alice, bob, carol]
   \<and> \<not> are_arrangements_same [alice, bob, carol] [alice, bob]
   \<and> \<not> are_arrangements_same [alice, bob, carol] [alice, bob, bob]"
proof -
  have l: "length [alice, bob, carol] \<noteq> length [alice, bob]" by simp
  have "''Carol'' \<in> name ` set [alice, bob, carol]"
    by (simp add: carol_def)
  moreover have "''Carol'' \<notin> name ` set [alice, bob, bob]"
    by (simp add: alice_def bob_def)
  ultimately have s: "name ` set [alice, bob, carol] \<noteq> name ` set [alice, bob, bob]"
    by metis
  have u: "set [alice, bob, carol] \<union> set [alice, bob, bob] = {alice, bob, carol}"
    by auto
  have i: "inj_on name (set [alice, bob, carol] \<union> set [alice, bob, bob])"
    unfolding u by (auto simp: inj_on_def alice_def bob_def carol_def)
  from s have p: "set [alice, bob, carol] \<noteq> set [alice, bob, bob]" by metis
  note t = are_arrangements_same_rotation
    [of "[alice, bob, carol]" 2 "[alice, bob]" "[alice, bob, bob]"]
  from t have r1: "are_arrangements_same [alice, bob, carol] (rotate 2 [alice, bob, carol])"
    by (elim conjE)
  from t have r2: "are_arrangements_same (rotate 2 [alice, bob, carol]) [alice, bob, carol]"
    by (elim conjE)
  from t l have n1: "\<not> are_arrangements_same [alice, bob, carol] [alice, bob]"
    by (elim conjE) (rule mp)
  from t s have n2: "\<not> are_arrangements_same [alice, bob, carol] [alice, bob, bob]"
    by (elim conjE) (rule mp)
  show ?thesis by (intro conjI l s i p r1 r2 n1 n2)
qed

text \<open>
  Claim C7. Constructing a person with a sex other than the two recognised values fails
  with the constructor's error (\<^verbatim>\<open>ValueError\<close> in the source); with a recognised value
  the constructor returns the person with the fields as given.
\<close>

theorem Person_init_validates_sex:
  "(s \<notin> {''male'', ''female''} \<longrightarrow> Person_init n s rs ps ms = Inl ValueError)
   \<and> (s \<in> {''male'', ''female''} \<longrightarrow>
        (\<exists>p. Person_init n s rs ps ms = Inr p \<and> name p = n \<and> sex p = s
           \<and> relations p = rs \<and> preferred p = ps \<and> meals p = ms))"
  by (simp add: Person_init_def)

theorem Person_init_validates_sex_witness:
  "''other'' \<notin> {''male'', ''female''} \<and> ''female'' \<in> {''male'', ''female''}
   \<and> Person_init ''Zed'' ''other'' [] [] [] = Inl ValueError
   \<and> (\<exists>p. Person_init ''Alice'' ''female'' [] [] [''m''] = Inr p \<and> p = alice)"
  using Person_init_validates_sex [of "''other''" "''Zed''" "[]" "[]" "[]"]
    Person_init_validates_sex [of "''female''" "''Alice''" "[]" "[]" "[''m'']"]
  by (auto simp: alice_def)

section \<open>Hard constraints of accepted arrangements\<close>

lemma seat_meal_accepted:
  assumes two: "2 \<le> length (attendees_this_meal people m)"
    and step: "seat_meal order people m st = Inr st'"
    and app: "final_seating_arrangements st' m =
        Some (arrangements_found_before (final_seating_arrangements st) m @ [arr])"
  shows "find_arrangement_backtrack order [] (attendees_this_meal people m)
           (length (attendees_this_meal people m))
           (arrangements_found_before (final_seating_arrangements st) m)
           (all_seated_neighbour_pairs_globally st) False = Inr (Some arr)"
proof -
  from two have nz: "length (attendees_this_meal people m) \<noteq> 0" by linarith
  show ?thesis
  proof (rule search_result_cases[OF nz, of order "attendees_this_meal people m"
            "arrangements_found_before (final_seating_arrangements st) m"
            "all_seated_neighbour_pairs_globally st"])
    fix arr'
    assume r: "find_arrangement_backtrack order [] (attendees_this_meal people m)
           (length (attendees_this_meal people m))
           (arrangements_found_before (final_seating_arrangements st) m)
           (all_seated_neighbour_pairs_globally st) False = Inr (Some arr')"
    from seat_meal_found[OF two r] step
    have "final_seating_arrangements st' m =
        Some (arrangements_found_before (final_seating_arrangements st) m @ [arr'])"
      by auto
    with app have "arr' = arr" by simp
    with r show ?thesis by simp
  next
    assume r: "find_arrangement_backtrack order [] (attendees_this_meal people m)
           (length (attendees_this_meal people m))
           (arrangements_found_before (final_seating_arrangements st) m)
           (all_seated_neighbour_pairs_globally st) False = Inr None"
    from seat_meal_failed[OF two r] step
    have "final_seating_arrangements st' m =
        Some (arrangements_found_before (final_seating_arrangements st) m)"
      by (auto simp: arrangements_found_before_def split: if_splits)
    with app have False by simp
    then show ?thesis ..
  qed
qed

definition state_with_history :: planner_state where
  "state_with_history =
     \<lparr>final_seating_arrangements = Map.empty,
      all_seated_neighbour_pairs_globally = {(''Alice'', ''Carol'')}\<rparr>"

lemma attendees_example4:
  "attendees_this_meal [alice, bob, carol, dave] ''m'' = [alice, bob, carol, dave]"
  by (simp add: attendees_this_meal_def alice_def bob_def carol_def dave_def)

lemma search_example4:
  "find_arrangement_backtrack input_order [] [alice, bob, carol, dave] 4 [] {(''Alice'', ''Carol'')} False
     = Inr (Some [alice, bob, carol, dave])"
  by code_simp

lemma neighbours_example4:
  "neighbours [alice, bob, carol, dave] = [(alice, bob), (bob, carol), (carol, dave), (dave, alice)]"
  by code_simp

text \<open>
  Claim C1. When the planner accepts an arrangement for an event with at least two
  attendees (the event's plan gains the arrangement the search returned), no adjacent pair
  of that arrangement, the wrap-around pair of last and first person included, has its
  canonical name pair in the ledger the planner held at that moment. \<open>st\<close> is any state of
  the planner's loop, in particular the one reached after the earlier events.
\<close>

theorem accepted_pairs_not_in_ledger:
  assumes "2 \<le> length (attendees_this_meal people m)"
    and "seat_meal order people m st = Inr st'"
    and "final_seating_arrangements st' m =
        Some (arrangements_found_before (final_seating_arrangements st) m @ [arr])"
  shows "\<forall>(a, b)\<in>set (neighbours arr).
           canonical_pair (name a) (name b) \<notin> all_seated_neighbour_pairs_globally st"
proof -
  note r = seat_meal_accepted[OF assms]
  from search_sound[OF r]
  have "fresh_pairs (all_seated_neighbour_pairs_globally st) (neighbours arr)"
    by (elim conjE)
  then show ?thesis by (simp add: fresh_pairs_def list_all_iff)
qed


lemma seat_meal_example4:
  "seat_meal input_order [alice, bob, carol, dave] ''m'' state_with_history =
     Inr \<lparr>final_seating_arrangements = [''m'' \<mapsto> [[alice, bob, carol, dave]]],
          all_seated_neighbour_pairs_globally =
            record_pairs [alice, bob, carol, dave] {(''Alice'', ''Carol'')}\<rparr>"
proof -
  have two: "2 \<le> length (attendees_this_meal [alice, bob, carol, dave] ''m'')"
    by (simp add: attendees_example4)
  have l: "length [alice, bob, carol, dave] = 4" by simp
  have h: "final_seating_arrangements state_with_history = Map.empty"
    "all_seated_neighbour_pairs_globally state_with_history = {(''Alice'', ''Carol'')}"
    by (simp_all add: state_with_history_def)
  have s: "find_arrangement_backtrack input_order [] (attendees_this_meal [alice, bob, carol, dave] ''m'')
           (length (attendees_this_meal [alice, bob, carol, dave] ''m''))
           (arrangements_found_before (final_seating_arrangements state_with_history) ''m'')
           (all_seated_neighbour_pairs_globally state_with_history) False
         = Inr (Some [alice, bob, carol, dave])"
    by (simp only: attendees_example4 l h initial_state_simps search_example4)
  show ?thesis
    unfolding seat_meal_found[OF two s] by (simp add: h initial_state_simps)
qed

theorem accepted_pairs_not_in_ledger_witness:
  "2 \<le> length (attendees_this_meal [alice, bob, carol, dave] ''m'')
   \<and> seat_meal input_order [alice, bob, carol, dave] ''m'' state_with_history =
       Inr \<lparr>final_seating_arrangements = [''m'' \<mapsto> [[alice, bob, carol, dave]]],
            all_seated_neighbour_pairs_globally =
              record_pairs [alice, bob, carol, dave] {(''Alice'', ''Carol'')}\<rparr>
   \<and> neighbours [alice, bob, carol, dave] =
       [(alice, bob), (bob, carol), (carol, dave), (dave, alice)]
   \<and> canonical_pair (name alice) (name bob) \<notin> {(''Alice'', ''Carol'')}
   \<and> canonical_pair (name bob) (name carol) \<notin> {(''Alice'', ''Carol'')}
   \<and> canonical_pair (name carol) (name dave) \<notin> {(''Alice'', ''Carol'')}
   \<and> canonical_pair (name dave) (name alice) \<notin> {(''Alice'', ''Carol'')}"
proof -
  have two: "2 \<le> length (attendees_this_meal [alice, bob, carol, dave] ''m'')"
    by (simp add: attendees_example4)
  have app: "final_seating_arrangements
        \<lparr>final_seating_arrangements = [''m'' \<mapsto> [[alice, bob, carol, dave]]],
         all_seated_neighbour_pairs_globally =
           record_pairs [alice, bob, carol, dave] {(''Alice'', ''Carol'')}\<rparr> ''m'' =
      Some (arrangements_found_before (final_seating_arrangements state_with_history) ''m''
              @ [[alice, bob, carol, dave]])"
    by (simp add: state_with_history_def initial_state_simps)
  have led: "all_seated_neighbour_pairs_globally state_with_history = {(''Alice'', ''Carol'')}"
    by (simp add: state_with_history_def)
  from accepted_pairs_not_in_ledger[OF two seat_meal_example4 app]
  have "\<forall>(a, b)\<in>set [(alice, bob), (bob, carol), (carol, dave), (dave, alice)].
         canonical_pair (name a) (name b) \<notin> {(''Alice'', ''Carol'')}"
    unfolding neighbours_example4 led .
  then have "canonical_pair (name alice) (name bob) \<notin> {(''Alice'', ''Carol'')}
   \<and> canonical_pair (name bob) (name carol) \<notin> {(''Alice'', ''Carol'')}
   \<and> canonical_pair (name carol) (name dave) \<notin> {(''Alice'', ''Carol'')}
   \<and> canonical_pair (name dave) (name alice) \<notin> {(''Alice'', ''Carol'')}"
    by simp
  with two seat_meal_example4 neighbours_example4 show ?thesis by blast
qed

definition budget_kept :: "planner_state \<Rightarrow> bool" where
  "budget_kept st \<longleftrightarrow>
     (\<forall>m arrs arr. final_seating_arrangements st m = Some arrs \<longrightarrow> arr \<in> set arrs \<longrightarrow>
        same_sex_count (neighbours arr) \<le> 1)"

lemma same_sex_count_le: "same_sex_count ps \<le> length ps"
  by (simp add: same_sex_count_def)

lemma found_before_mem:
  "arr \<in> set (arrangements_found_before plans m) \<Longrightarrow>
     \<exists>arrs. plans m = Some arrs \<and> arr \<in> set arrs"
  by (cases "plans m") (simp_all add: arrangements_found_before_def)

lemma budget_kept_update:
  assumes "budget_kept st"
    and "\<And>arr. arr \<in> set arrs \<Longrightarrow> same_sex_count (neighbours arr) \<le> 1"
    and "final_seating_arrangements st' = (final_seating_arrangements st)(m \<mapsto> arrs)"
  shows "budget_kept st'"
  using assms unfolding budget_kept_def by (metis fun_upd_apply option.inject)

lemma budget_kept_step:
  assumes inv: "budget_kept st" and step: "seat_meal order people m st = Inr st'"
  shows "budget_kept st'"
proof -
  consider "length (attendees_this_meal people m) = 0"
    | "length (attendees_this_meal people m) = 1"
    | "2 \<le> length (attendees_this_meal people m)" by linarith
  then show ?thesis
  proof cases
    case 1
    with step have "final_seating_arrangements st' = (final_seating_arrangements st)(m \<mapsto> [])"
      by (auto simp: seat_meal_empty)
    then show ?thesis by (rule budget_kept_update[OF inv, rotated]) simp
  next
    case 2
    with step have "final_seating_arrangements st' =
        (final_seating_arrangements st)(m \<mapsto> [attendees_this_meal people m])"
      by (auto simp: seat_meal_single)
    moreover have "same_sex_count (neighbours (attendees_this_meal people m)) \<le> 1"
      using same_sex_count_le[of "neighbours (attendees_this_meal people m)"] 2 by simp
    ultimately show ?thesis by (intro budget_kept_update[OF inv, rotated]) auto
  next
    case 3
    then have nz: "length (attendees_this_meal people m) \<noteq> 0" by linarith
    show ?thesis
    proof (rule search_result_cases[OF nz, of order "attendees_this_meal people m"
            "arrangements_found_before (final_seating_arrangements st) m"
            "all_seated_neighbour_pairs_globally st"])
      fix arr
      assume r: "find_arrangement_backtrack order [] (attendees_this_meal people m)
           (length (attendees_this_meal people m))
           (arrangements_found_before (final_seating_arrangements st) m)
           (all_seated_neighbour_pairs_globally st) False = Inr (Some arr)"
      from search_sound[OF r] have cnt: "same_sex_count (neighbours arr) \<le> 1" by (elim conjE)
      from seat_meal_found[OF 3 r] step
      have f: "final_seating_arrangements st' = (final_seating_arrangements st)
               (m \<mapsto> arrangements_found_before (final_seating_arrangements st) m @ [arr])"
        by auto
      have "same_sex_count (neighbours a) \<le> 1"
        if "a \<in> set (arrangements_found_before (final_seating_arrangements st) m @ [arr])" for a
      proof (cases "a = arr")
        case True
        with cnt show ?thesis by simp
      next
        case False
        with that have "a \<in> set (arrangements_found_before (final_seating_arrangements st) m)"
          by simp
        from found_before_mem[OF this] inv show ?thesis unfolding budget_kept_def by blast
      qed
      with f show ?thesis by (intro budget_kept_update[OF inv, rotated]) auto
    next
      assume r: "find_arrangement_backtrack order [] (attendees_this_meal people m)
           (length (attendees_this_meal people m))
           (arrangements_found_before (final_seating_arrangements st) m)
           (all_seated_neighbour_pairs_globally st) False = Inr None"
      show ?thesis
      proof (cases "final_seating_arrangements st m = None")
        case True
        with seat_meal_failed[OF 3 r] step
        have "final_seating_arrangements st' = (final_seating_arrangements st)(m \<mapsto> [])"
          by auto
        then show ?thesis by (rule budget_kept_update[OF inv, rotated]) simp
      next
        case False
        with seat_meal_failed[OF 3 r] step have "st' = st" by auto
        with inv show ?thesis by simp
      qed
    qed
  qed
qed

lemma budget_kept_initial: "budget_kept initial_state"
  by (simp add: budget_kept_def initial_state_def)


lemma seat_people_Inr:
  "seat_people orders people ms = Inr plans \<Longrightarrow>
     \<exists>st. seat_meals orders people 0 ms initial_state = Inr st
          \<and> plans = final_seating_arrangements st"
  by (auto simp: seat_people_def split: sum.splits)

lemma completion_rejects_second_pair:
  assumes "length cur = n" "cur \<noteq> []" "sex (last cur) = sex (hd cur)"
  shows "find_arrangement_backtrack order cur rem n found seated True = Inr None"
proof -
  from assms(2) obtain f fs where c: "cur = f # fs" by (cases cur) auto
  with assms(3) have s: "sex (last (f # fs)) = sex f" by simp
  show ?thesis
    unfolding find_arrangement_backtrack.simps[of order cur rem n found seated True]
    using assms(1) s unfolding c by (simp add: Let_def)
qed

text \<open>
  Claim C2. Every arrangement in the plans the planner returns has at most one adjacent
  same-sex pair, the wrap-around pair counted. A second same-sex adjacency is a hard
  exclusion: with the budget used up, a same-sex candidate is not appended to the candidate
  list at all, and the completion check rejects a same-sex wrap-around pair.
\<close>

theorem same_sex_budget:
  "(seat_people orders people meal_names = Inr plans \<longrightarrow> plans m = Some arrs \<longrightarrow>
      arr \<in> set arrs \<longrightarrow> same_sex_count (neighbours arr) \<le> 1)
   \<and> (sex l = sex p \<longrightarrow> score_candidate (Some l) seated True p = None)
   \<and> (length cur = n \<longrightarrow> cur \<noteq> [] \<longrightarrow> sex (last cur) = sex (hd cur) \<longrightarrow>
        find_arrangement_backtrack order cur rem n found seated True = Inr None)"
proof (intro conjI impI)
  assume run: "seat_people orders people meal_names = Inr plans"
    and p: "plans m = Some arrs" and a: "arr \<in> set arrs"
  from seat_people_Inr[OF run] obtain st
    where st: "seat_meals orders people 0 meal_names initial_state = Inr st"
      and plans: "plans = final_seating_arrangements st" by blast
  have "budget_kept st"
    by (rule seat_meals_invariant[where P = budget_kept, OF _ budget_kept_initial st])
      (rule budget_kept_step)
  with p a plans show "same_sex_count (neighbours arr) \<le> 1"
    unfolding budget_kept_def by blast
next
  assume "sex l = sex p"
  then show "score_candidate (Some l) seated True p = None"
    by (simp add: score_candidate_def Let_def)
next
  assume "length cur = n" "cur \<noteq> []" "sex (last cur) = sex (hd cur)"
  then show "find_arrangement_backtrack order cur rem n found seated True = Inr None"
    by (rule completion_rejects_second_pair)
qed

lemma seat_people_example3:
  "seat_people (every_pass input_order) [alice, bob, carol] [''m''] = Inr [''m'' \<mapsto> [[alice, bob, carol]]]"
proof -
  have two: "2 \<le> length (attendees_this_meal [alice, bob, carol] ''m'')"
    by (simp add: attendees_example3)
  have s: "find_arrangement_backtrack input_order [] (attendees_this_meal [alice, bob, carol] ''m'')
           (length (attendees_this_meal [alice, bob, carol] ''m''))
           (arrangements_found_before (final_seating_arrangements initial_state) ''m'')
           (all_seated_neighbour_pairs_globally initial_state) False
         = Inr (Some [alice, bob, carol])"
    by (simp only: attendees_example3 length_example3 initial_state_simps search_example3)
  show ?thesis
    by (simp add: seat_people_def seat_meal_found[OF two s] initial_state_simps)
qed

theorem same_sex_budget_witness:
  "seat_people (every_pass input_order) [alice, bob, carol] [''m''] = Inr [''m'' \<mapsto> [[alice, bob, carol]]]
   \<and> [''m'' \<mapsto> [[alice, bob, carol]]] ''m'' = Some [[alice, bob, carol]]
   \<and> [alice, bob, carol] \<in> set [[alice, bob, carol]]
   \<and> sex alice = sex carol
   \<and> length [alice, bob, carol] = 3 \<and> [alice, bob, carol] \<noteq> []
   \<and> sex (last [alice, bob, carol]) = sex (hd [alice, bob, carol])
   \<and> same_sex_count (neighbours [alice, bob, carol]) \<le> 1
   \<and> score_candidate (Some alice) {} True carol = None
   \<and> find_arrangement_backtrack input_order [alice, bob, carol] [] 3 [] {} True = Inr None"
proof -
  have s: "sex alice = sex carol" by (simp add: alice_def carol_def)
  have s': "sex (last [alice, bob, carol]) = sex (hd [alice, bob, carol])"
    by (simp add: alice_def carol_def)
  have m: "[''m'' \<mapsto> [[alice, bob, carol]]] ''m'' = Some [[alice, bob, carol]]" by simp
  have i: "[alice, bob, carol] \<in> set [[alice, bob, carol]]" by simp
  from same_sex_budget[of "every_pass input_order" "[alice, bob, carol]" "[''m'']"
      "[''m'' \<mapsto> [[alice, bob, carol]]]"
      "''m''" "[[alice, bob, carol]]" "[alice, bob, carol]" alice carol "{}"
      "[alice, bob, carol]" 3 input_order "[]" "[]"]
    seat_people_example3 m i s s' length_example3
  show ?thesis by blast
qed

section \<open>Events whose attendees all have the same sex\<close>

definition erin :: person where
  "erin = \<lparr>name = ''Erin'', sex = ''female'', relations = [], preferred = [], meals = [''m'']\<rparr>"

text \<open>
  Claim C6. For an event whose attendees are three people of the same sex, the search from
  the empty ledger fails, and the planner's plan for that single event is the empty list.
  Relations and preferences play no part: they only change scores.
\<close>

theorem three_same_sex_fails:
  assumes "length (attendees_this_meal people m) = 3"
    and "\<forall>p\<in>set (attendees_this_meal people m).
           \<forall>q\<in>set (attendees_this_meal people m). sex p = sex q"
  shows "find_arrangement_backtrack order [] (attendees_this_meal people m) 3 [] {} False
           = Inr None
         \<and> seat_people orders people [m] = Inr [m \<mapsto> []]"
proof -
  have two: "2 \<le> length (attendees_this_meal people m)" using assms(1) by linarith
  have three: "(2::nat) \<le> 3" by simp
  have f: "find_arrangement_backtrack order [] (attendees_this_meal people m) 3 [] {} False
           = Inr None"
    using three assms(2) by (rule same_sex_search_fails)
  have "find_arrangement_backtrack (orders 0) [] (attendees_this_meal people m) 3 [] {} False
           = Inr None"
    using three assms(2) by (rule same_sex_search_fails)
  then have s: "find_arrangement_backtrack (orders 0) [] (attendees_this_meal people m)
           (length (attendees_this_meal people m))
           (arrangements_found_before (final_seating_arrangements initial_state) m)
           (all_seated_neighbour_pairs_globally initial_state) False = Inr None"
    by (simp only: assms(1) initial_state_simps)
  have "seat_people orders people [m] = Inr [m \<mapsto> []]"
    by (simp add: seat_people_def seat_meal_failed[OF two s] initial_state_simps)
  with f show ?thesis by simp
qed

theorem three_same_sex_fails_witness:
  "attendees_this_meal [alice, carol, erin] ''m'' = [alice, carol, erin]
   \<and> sex alice = sex carol \<and> sex carol = sex erin
   \<and> find_arrangement_backtrack input_order [] [alice, carol, erin] 3 [] {} False = Inr None
   \<and> seat_people (every_pass input_order) [alice, carol, erin] [''m''] = Inr [''m'' \<mapsto> []]"
proof -
  have a: "attendees_this_meal [alice, carol, erin] ''m'' = [alice, carol, erin]"
    by (simp add: attendees_this_meal_def alice_def carol_def erin_def)
  have l: "length (attendees_this_meal [alice, carol, erin] ''m'') = 3"
    by (simp add: a)
  have x: "sex alice = sex carol" "sex carol = sex erin"
    by (simp_all add: alice_def carol_def erin_def)
  then have s: "\<forall>p\<in>set (attendees_this_meal [alice, carol, erin] ''m'').
         \<forall>q\<in>set (attendees_this_meal [alice, carol, erin] ''m''). sex p = sex q"
    unfolding a by simp
  from three_same_sex_fails[OF l s, of input_order "every_pass input_order"] a x
  show ?thesis by simp
qed

text \<open>
  Claim C10. For two attendees of the same sex the search returns no arrangement, whatever
  the ledger, the earlier arrangements and the iteration order: seating the second person
  next to the first uses the same-sex slot (the candidate carries the flag), and the
  completion check then rejects the wrap-around pair of the same two people.
\<close>

theorem two_same_sex_fails:
  assumes "sex a = sex b"
  shows "find_arrangement_backtrack order [] [a, b] 2 found seated False = Inr None
         \<and> (canonical_pair (name a) (name b) \<notin> seated \<longrightarrow>
              (\<exists>s. score_candidate (Some a) seated False b = Some (s, b, True)))
         \<and> find_arrangement_backtrack order [a, b] rem 2 found seated True = Inr None"
proof (intro conjI impI)
  have "(2::nat) \<le> 2" by simp
  moreover have "\<forall>p\<in>set [a, b]. \<forall>q\<in>set [a, b]. sex p = sex q" using assms by simp
  ultimately show "find_arrangement_backtrack order [] [a, b] 2 found seated False = Inr None"
    by (rule same_sex_search_fails)
next
  assume "canonical_pair (name a) (name b) \<notin> seated"
  with assms show "\<exists>s. score_candidate (Some a) seated False b = Some (s, b, True)"
    by (simp add: score_candidate_def Let_def)
next
  have "length [a, b] = 2" "[a, b] \<noteq> []" "sex (last [a, b]) = sex (hd [a, b])"
    using assms by simp_all
  then show "find_arrangement_backtrack order [a, b] rem 2 found seated True = Inr None"
    by (rule completion_rejects_second_pair)
qed

theorem two_same_sex_fails_witness:
  "sex alice = sex carol \<and> canonical_pair (name alice) (name carol) \<notin> {}
   \<and> find_arrangement_backtrack input_order [] [alice, carol] 2 [] {} False = Inr None
   \<and> (\<exists>s. score_candidate (Some alice) {} False carol = Some (s, carol, True))
   \<and> find_arrangement_backtrack input_order [alice, carol] [] 2 [] {} True = Inr None"
proof -
  have s: "sex alice = sex carol" by (simp add: alice_def carol_def)
  from two_same_sex_fails[OF s, of input_order "[]" "{}" "[]"] s show ?thesis by simp
qed

section \<open>Events with fewer than two attendees\<close>

lemma seat_meal_other_key:
  assumes "seat_meal order people m st = Inr st'" "m' \<noteq> m"
  shows "final_seating_arrangements st' m' = final_seating_arrangements st m'"
proof -
  consider "length (attendees_this_meal people m) = 0"
    | "length (attendees_this_meal people m) = 1"
    | "2 \<le> length (attendees_this_meal people m)" by linarith
  then show ?thesis
  proof cases
    case 1
    with assms show ?thesis by (auto simp: seat_meal_empty)
  next
    case 2
    with assms show ?thesis by (auto simp: seat_meal_single)
  next
    case 3
    then have nz: "length (attendees_this_meal people m) \<noteq> 0" by linarith
    show ?thesis
    proof (rule search_result_cases[OF nz, of order "attendees_this_meal people m"
            "arrangements_found_before (final_seating_arrangements st) m"
            "all_seated_neighbour_pairs_globally st"])
      fix arr
      assume "find_arrangement_backtrack order [] (attendees_this_meal people m)
           (length (attendees_this_meal people m))
           (arrangements_found_before (final_seating_arrangements st) m)
           (all_seated_neighbour_pairs_globally st) False = Inr (Some arr)"
      from seat_meal_found[OF 3 this] assms show ?thesis by auto
    next
      assume "find_arrangement_backtrack order [] (attendees_this_meal people m)
           (length (attendees_this_meal people m))
           (arrangements_found_before (final_seating_arrangements st) m)
           (all_seated_neighbour_pairs_globally st) False = Inr None"
      from seat_meal_failed[OF 3 this] assms show ?thesis by (auto split: if_splits)
    qed
  qed
qed

lemma seat_meals_untouched:
  "m \<notin> set ms \<Longrightarrow> seat_meals orders people k ms st = Inr st' \<Longrightarrow>
     final_seating_arrangements st' m = final_seating_arrangements st m"
proof (induction ms arbitrary: st k)
  case Nil
  then show ?case by simp
next
  case (Cons x ms)
  from seat_meal_total obtain st1 where s: "seat_meal (orders k) people x st = Inr st1" by blast
  with Cons.prems(2) have r: "seat_meals orders people (Suc k) ms st1 = Inr st'" by simp
  from Cons.prems(1) have "m \<noteq> x" "m \<notin> set ms" by auto
  from Cons.IH[OF this(2) r] seat_meal_other_key[OF s this(1)] show ?case by simp
qed

definition small_plan :: "person list \<Rightarrow> person list list" where
  "small_plan attendees = (if attendees = [] then [] else [attendees])"

lemma seat_meal_small:
  assumes "length (attendees_this_meal people m) \<le> 1"
  shows "seat_meal order people m st =
       Inr (st\<lparr>final_seating_arrangements :=
              (final_seating_arrangements st)(m \<mapsto> small_plan (attendees_this_meal people m))\<rparr>)"
proof (cases "length (attendees_this_meal people m) = 0")
  case True
  then show ?thesis by (simp add: seat_meal_empty small_plan_def)
next
  case False
  with assms have 1: "length (attendees_this_meal people m) = 1" by linarith
  then have "attendees_this_meal people m \<noteq> []" by auto
  with 1 show ?thesis by (simp add: seat_meal_single small_plan_def)
qed

lemma seat_meals_small:
  "m \<in> set ms \<Longrightarrow> length (attendees_this_meal people m) \<le> 1 \<Longrightarrow>
     seat_meals orders people k ms st = Inr st' \<Longrightarrow>
     final_seating_arrangements st' m = Some (small_plan (attendees_this_meal people m))"
proof (induction ms arbitrary: st k)
  case Nil
  then show ?case by simp
next
  case (Cons x ms)
  from seat_meal_total obtain st1 where s: "seat_meal (orders k) people x st = Inr st1" by blast
  with Cons.prems(3) have r: "seat_meals orders people (Suc k) ms st1 = Inr st'" by simp
  show ?case
  proof (cases "m \<in> set ms")
    case True
    from Cons.IH[OF True Cons.prems(2) r] show ?thesis .
  next
    case False
    with Cons.prems(1) have x: "x = m" by simp
    from s have "final_seating_arrangements st1 m
        = Some (small_plan (attendees_this_meal people m))"
      unfolding x seat_meal_small[OF Cons.prems(2)] by auto
    with seat_meals_untouched[OF False r] show ?thesis by simp
  qed
qed

text \<open>
  Claim C9. In the plans the planner returns, every event of the list with no attendee has
  the empty plan and every event with exactly one attendee has the plan holding the single
  one-element arrangement. The pass of the loop for such an event does not call the search
  and leaves the ledger as it was, whatever the ledger holds.
\<close>

theorem empty_and_singleton_events:
  "(seat_people orders people meal_names = Inr plans \<longrightarrow> m \<in> set meal_names \<longrightarrow>
      (attendees_this_meal people m = [] \<longrightarrow> plans m = Some [])
      \<and> (attendees_this_meal people m = [p] \<longrightarrow> plans m = Some [[p]]))
   \<and> (length (attendees_this_meal people m) \<le> 1 \<longrightarrow>
        seat_meal order people m st = Inr st' \<longrightarrow>
        all_seated_neighbour_pairs_globally st' = all_seated_neighbour_pairs_globally st)"
proof (intro conjI impI)
  assume run: "seat_people orders people meal_names = Inr plans" and m: "m \<in> set meal_names"
  from seat_people_Inr[OF run] obtain stf
    where stf: "seat_meals orders people 0 meal_names initial_state = Inr stf"
      and plans: "plans = final_seating_arrangements stf" by blast
  {
    assume e: "attendees_this_meal people m = []"
    then have "length (attendees_this_meal people m) \<le> 1" by simp
    from seat_meals_small[OF m this stf] show "plans m = Some []"
      by (simp add: plans e small_plan_def)
  }
  {
    assume e: "attendees_this_meal people m = [p]"
    then have "length (attendees_this_meal people m) \<le> 1" by simp
    from seat_meals_small[OF m this stf] show "plans m = Some [[p]]"
      by (simp add: plans e small_plan_def)
  }
next
  assume "length (attendees_this_meal people m) \<le> 1"
    and "seat_meal order people m st = Inr st'"
  then show "all_seated_neighbour_pairs_globally st' = all_seated_neighbour_pairs_globally st"
    by (auto simp: seat_meal_small)
qed

lemma attendees_example1:
  "attendees_this_meal [alice] ''m'' = [alice]" "attendees_this_meal [alice] ''x'' = []"
  by (simp_all add: attendees_this_meal_def alice_def)

lemma seat_people_example1:
  "seat_people (every_pass input_order) [alice] [''m'', ''x''] = Inr [''m'' \<mapsto> [[alice]], ''x'' \<mapsto> []]"
proof -
  have 1: "length (attendees_this_meal [alice] ''m'') = 1"
    and 0: "length (attendees_this_meal [alice] ''x'') = 0"
    by (simp_all add: attendees_example1)
  show ?thesis
    by (simp add: seat_people_def seat_meal_single[OF 1] seat_meal_empty[OF 0]
        attendees_example1 initial_state_def)
qed

theorem empty_and_singleton_events_witness:
  "seat_people (every_pass input_order) [alice] [''m'', ''x''] = Inr [''m'' \<mapsto> [[alice]], ''x'' \<mapsto> []]
   \<and> ''m'' \<in> set [''m'', ''x''] \<and> ''x'' \<in> set [''m'', ''x'']
   \<and> attendees_this_meal [alice] ''m'' = [alice] \<and> attendees_this_meal [alice] ''x'' = []
   \<and> [''m'' \<mapsto> [[alice]], ''x'' \<mapsto> []] ''x'' = Some []
   \<and> [''m'' \<mapsto> [[alice]], ''x'' \<mapsto> []] ''m'' = Some [[alice]]
   \<and> seat_meal input_order [alice] ''m'' state_after_first =
       Inr (state_after_first\<lparr>final_seating_arrangements :=
              (final_seating_arrangements state_after_first)(''m'' \<mapsto> [[alice]])\<rparr>)
   \<and> all_seated_neighbour_pairs_globally
         (state_after_first\<lparr>final_seating_arrangements :=
              (final_seating_arrangements state_after_first)(''m'' \<mapsto> [[alice]])\<rparr>)
       = all_seated_neighbour_pairs_globally state_after_first"
proof -
  have mm: "''m'' \<in> set [''m'', ''x'']" "''x'' \<in> set [''m'', ''x'']" by simp_all
  have 1: "length (attendees_this_meal [alice] ''m'') = 1"
    by (simp add: attendees_example1)
  then have le: "length (attendees_this_meal [alice] ''m'') \<le> 1" by simp
  have step: "seat_meal input_order [alice] ''m'' state_after_first =
       Inr (state_after_first\<lparr>final_seating_arrangements :=
              (final_seating_arrangements state_after_first)(''m'' \<mapsto> [[alice]])\<rparr>)"
    by (simp add: seat_meal_single[OF 1] attendees_example1)
  from empty_and_singleton_events[of "every_pass input_order" "[alice]" "[''m'', ''x'']"
      "[''m'' \<mapsto> [[alice]], ''x'' \<mapsto> []]" "''x''" alice input_order state_after_first]
    empty_and_singleton_events[of "every_pass input_order" "[alice]" "[''m'', ''x'']"
      "[''m'' \<mapsto> [[alice]], ''x'' \<mapsto> []]" "''m''" alice input_order state_after_first
      "state_after_first\<lparr>final_seating_arrangements :=
              (final_seating_arrangements state_after_first)(''m'' \<mapsto> [[alice]])\<rparr>"]
    seat_people_example1 mm attendees_example1 le step
  show ?thesis by blast
qed

section \<open>Failure of the search for one event\<close>

text \<open>
  Claim C8, as stated, fails where an event identifier occurs twice in the list. With the
  two attendees Alice and Bob and the list \<open>[m, m]\<close>, the first pass accepts
  \<open>[alice, bob]\<close>; at the second pass the search fails (the only pair is in the ledger) and
  the planner records no empty list: the guard \<^verbatim>\<open>if meal_name not in\<close> leaves the plan of
  \<open>m\<close> as it was, the arrangement of the first pass.
\<close>

theorem failed_search_repeated_event:
  "seat_meals (every_pass input_order) [alice, bob] 0 [''m''] initial_state = Inr state_after_first
   \<and> attendees_this_meal [alice, bob] ''m'' = [alice, bob]
   \<and> find_arrangement_backtrack input_order [] [alice, bob] 2
         (arrangements_found_before (final_seating_arrangements state_after_first) ''m'')
         (all_seated_neighbour_pairs_globally state_after_first) False = Inr None
   \<and> seat_meal input_order [alice, bob] ''m'' state_after_first = Inr state_after_first
   \<and> final_seating_arrangements state_after_first ''m'' = Some [[alice, bob]]
   \<and> seat_people (every_pass input_order) [alice, bob] [''m'', ''m''] = Inr [''m'' \<mapsto> [[alice, bob]]]
   \<and> [''m'' \<mapsto> [[alice, bob]]] ''m'' \<noteq> Some []"
proof -
  have run1: "seat_meals (every_pass input_order) [alice, bob] 0 [''m''] initial_state = Inr state_after_first"
    by (simp add: seat_meal_example2)
  have s: "find_arrangement_backtrack input_order [] [alice, bob] 2
         (arrangements_found_before (final_seating_arrangements state_after_first) ''m'')
         (all_seated_neighbour_pairs_globally state_after_first) False = Inr None"
    by (simp only: state_after_first_simps search_example2_again)
  have run2: "seat_people (every_pass input_order) [alice, bob] [''m'', ''m''] = Inr [''m'' \<mapsto> [[alice, bob]]]"
    by (simp add: seat_people_def seat_meal_example2 seat_meal_example2_again
        state_after_first_simps)
  have f: "final_seating_arrangements state_after_first ''m'' = Some [[alice, bob]]"
    by (simp add: state_after_first_simps)
  have n: "[''m'' \<mapsto> [[alice, bob]]] ''m'' \<noteq> Some []" by simp
  show ?thesis
    by (intro conjI run1 attendees_example2 s seat_meal_example2_again f run2 n)
qed

text \<open>
  Claim C8, amended. When the search fails for an event with at least two attendees, the
  pass returns normally; the event's plan is the list of arrangements found for the same
  identifier before (the empty list when the identifier had no entry), every other plan and
  the ledger are unchanged, and the planner goes on with the remaining events, whose
  planning returns normally as well.
\<close>

theorem failed_search_continues:
  assumes "2 \<le> length (attendees_this_meal people m)"
    and "find_arrangement_backtrack (orders k) [] (attendees_this_meal people m)
           (length (attendees_this_meal people m))
           (arrangements_found_before (final_seating_arrangements st) m)
           (all_seated_neighbour_pairs_globally st) False = Inr None"
  shows "\<exists>st'. seat_meal (orders k) people m st = Inr st'
     \<and> final_seating_arrangements st' m
         = Some (arrangements_found_before (final_seating_arrangements st) m)
     \<and> (final_seating_arrangements st m = None \<longrightarrow> final_seating_arrangements st' m = Some [])
     \<and> (\<forall>m'. m' \<noteq> m \<longrightarrow> final_seating_arrangements st' m' = final_seating_arrangements st m')
     \<and> all_seated_neighbour_pairs_globally st' = all_seated_neighbour_pairs_globally st
     \<and> seat_meals orders people k (m # rest) st = seat_meals orders people (Suc k) rest st'
     \<and> (\<exists>st''. seat_meals orders people (Suc k) rest st' = Inr st'')"
proof -
  define st' where "st' = (if final_seating_arrangements st m = None
            then st\<lparr>final_seating_arrangements := (final_seating_arrangements st)(m \<mapsto> [])\<rparr>
            else st)"
  have step: "seat_meal (orders k) people m st = Inr st'"
    unfolding st'_def by (rule seat_meal_failed[OF assms])
  have a: "final_seating_arrangements st' m
         = Some (arrangements_found_before (final_seating_arrangements st) m)"
    by (cases "final_seating_arrangements st m")
      (simp_all add: st'_def arrangements_found_before_def)
  have b: "final_seating_arrangements st m = None \<longrightarrow>
      final_seating_arrangements st' m = Some []"
    by (simp add: st'_def)
  have c: "\<forall>m'. m' \<noteq> m \<longrightarrow>
      final_seating_arrangements st' m' = final_seating_arrangements st m'"
    by (simp add: st'_def)
  have d: "all_seated_neighbour_pairs_globally st' = all_seated_neighbour_pairs_globally st"
    by (simp add: st'_def)
  have e: "seat_meals orders people k (m # rest) st = seat_meals orders people (Suc k) rest st'"
    by (simp add: step)
  have f: "\<exists>st''. seat_meals orders people (Suc k) rest st' = Inr st''"
    by (rule seat_meals_total)
  show ?thesis
    by (rule exI[of _ st']) (intro conjI step a b c d e f)
qed

theorem failed_search_continues_witness:
  "2 \<le> length (attendees_this_meal [alice, bob] ''m'')
   \<and> find_arrangement_backtrack input_order [] (attendees_this_meal [alice, bob] ''m'')
           (length (attendees_this_meal [alice, bob] ''m''))
           (arrangements_found_before (final_seating_arrangements state_after_first) ''m'')
           (all_seated_neighbour_pairs_globally state_after_first) False = Inr None
   \<and> (\<exists>st'. seat_meal input_order [alice, bob] ''m'' state_after_first = Inr st'
         \<and> final_seating_arrangements st' ''m'' = Some [[alice, bob]]
         \<and> all_seated_neighbour_pairs_globally st' = {(''Alice'', ''Bob'')}
         \<and> seat_meals (every_pass input_order) [alice, bob] 1 [''m'', ''x''] state_after_first
             = seat_meals (every_pass input_order) [alice, bob] 2 [''x''] st'
         \<and> (\<exists>st''. seat_meals (every_pass input_order) [alice, bob] 2 [''x''] st' = Inr st''))"
proof -
  have two: "2 \<le> length (attendees_this_meal [alice, bob] ''m'')"
    by (simp add: attendees_example2)
  have s: "find_arrangement_backtrack input_order [] (attendees_this_meal [alice, bob] ''m'')
           (length (attendees_this_meal [alice, bob] ''m''))
           (arrangements_found_before (final_seating_arrangements state_after_first) ''m'')
           (all_seated_neighbour_pairs_globally state_after_first) False = Inr None"
    by (simp only: attendees_example2 length_example2 state_after_first_simps
        search_example2_again)
  have s': "find_arrangement_backtrack (every_pass input_order 1) []
           (attendees_this_meal [alice, bob] ''m'')
           (length (attendees_this_meal [alice, bob] ''m''))
           (arrangements_found_before (final_seating_arrangements state_after_first) ''m'')
           (all_seated_neighbour_pairs_globally state_after_first) False = Inr None"
    unfolding every_pass_simp by (rule s)
  have n: "Suc 1 = 2" by simp
  from failed_search_continues[where orders = "every_pass input_order" and k = 1
      and rest = "[''x'']", OF two s'] obtain st'
    where x: "seat_meal input_order [alice, bob] ''m'' state_after_first = Inr st'
     \<and> final_seating_arrangements st' ''m''
         = Some (arrangements_found_before (final_seating_arrangements state_after_first) ''m'')
     \<and> (final_seating_arrangements state_after_first ''m'' = None \<longrightarrow>
          final_seating_arrangements st' ''m'' = Some [])
     \<and> (\<forall>m'. m' \<noteq> ''m'' \<longrightarrow>
          final_seating_arrangements st' m' = final_seating_arrangements state_after_first m')
     \<and> all_seated_neighbour_pairs_globally st'
         = all_seated_neighbour_pairs_globally state_after_first
     \<and> seat_meals (every_pass input_order) [alice, bob] 1 (''m'' # [''x'']) state_after_first
         = seat_meals (every_pass input_order) [alice, bob] 2 [''x''] st'
     \<and> (\<exists>st''. seat_meals (every_pass input_order) [alice, bob] 2 [''x''] st' = Inr st'')"
    unfolding every_pass_simp n ..
  from x have x1: "seat_meal input_order [alice, bob] ''m'' state_after_first = Inr st'"
    by (elim conjE)
  from x have "final_seating_arrangements st' ''m''
         = Some (arrangements_found_before (final_seating_arrangements state_after_first) ''m'')"
    by (elim conjE)
  then have x2: "final_seating_arrangements st' ''m'' = Some [[alice, bob]]"
    by (simp only: state_after_first_simps)
  from x have "all_seated_neighbour_pairs_globally st'
         = all_seated_neighbour_pairs_globally state_after_first"
    by (elim conjE)
  then have x3: "all_seated_neighbour_pairs_globally st' = {(''Alice'', ''Bob'')}"
    by (simp only: state_after_first_simps)
  from x have x4: "seat_meals (every_pass input_order) [alice, bob] 1 [''m'', ''x'']
           state_after_first
         = seat_meals (every_pass input_order) [alice, bob] 2 [''x''] st'"
    by (elim conjE)
  from x have x5: "\<exists>st''. seat_meals (every_pass input_order) [alice, bob] 2 [''x''] st' = Inr st''"
    by (elim conjE)
  have "\<exists>st'. seat_meal input_order [alice, bob] ''m'' state_after_first = Inr st'
         \<and> final_seating_arrangements st' ''m'' = Some [[alice, bob]]
         \<and> all_seated_neighbour_pairs_globally st' = {(''Alice'', ''Bob'')}
         \<and> seat_meals (every_pass input_order) [alice, bob] 1 [''m'', ''x''] state_after_first
             = seat_meals (every_pass input_order) [alice, bob] 2 [''x''] st'
         \<and> (\<exists>st''. seat_meals (every_pass input_order) [alice, bob] 2 [''x''] st' = Inr st'')"
    by (rule exI[of _ st']) (intro conjI x1 x2 x3 x4 x5)
  then show ?thesis by (intro conjI two s)
qed

section \<open>Order of the candidates\<close>

lemma first_found_first:
  assumes "\<forall>b\<in>set before. f b = Inr None" "f c = Inr (Some plan)" "plan \<noteq> []"
  shows "first_found f (before @ c # after) = Inr (Some plan)"
  using assms by (induction before) simp_all

lemma first_found_split:
  "first_found f cs = Inr (Some plan) \<Longrightarrow>
     \<exists>before c after. cs = before @ c # after \<and> f c = Inr (Some plan) \<and> plan \<noteq> []
        \<and> (\<forall>b\<in>set before. f b = Inr None \<or> f b = Inr (Some []))"
proof (induction cs)
  case Nil
  then show ?case by simp
next
  case (Cons x cs)
  show ?case
  proof (cases "f x = Inr (Some plan) \<and> plan \<noteq> []")
    case True
    then have "x # cs = [] @ x # cs \<and> f x = Inr (Some plan) \<and> plan \<noteq> []
        \<and> (\<forall>b\<in>set []. f b = Inr None \<or> f b = Inr (Some []))" by simp
    then show ?thesis by blast
  next
    case False
    with Cons.prems have skip: "f x = Inr None \<or> f x = Inr (Some [])"
      and rest: "first_found f cs = Inr (Some plan)"
      by (auto split: sum.splits option.splits if_splits)
    from Cons.IH[OF rest] obtain before c after
      where "cs = before @ c # after" "f c = Inr (Some plan)" "plan \<noteq> []"
        "\<forall>b\<in>set before. f b = Inr None \<or> f b = Inr (Some [])" by blast
    with skip have "x # cs = (x # before) @ c # after \<and> f c = Inr (Some plan) \<and> plan \<noteq> []
        \<and> (\<forall>b\<in>set (x # before). f b = Inr None \<or> f b = Inr (Some []))" by simp
    then show ?thesis by blast
  qed
qed

lemma backtrack_plan_nonempty:
  assumes "find_arrangement_backtrack order (cur @ [p]) rem n found seated used = Inr (Some plan)"
  shows "plan \<noteq> []"
proof -
  have "cur @ [p] \<noteq> []" by simp
  from backtrack_sound[OF assms this] obtain ext
    where "extension_ok (cur @ [p]) rem n found seated used plan ext" ..
  then have "plan = (cur @ [p]) @ ext" by (simp add: extension_ok_def)
  then show ?thesis by simp
qed


lemma backtrack_unfold_step:
  "length cur \<noteq> n \<Longrightarrow>
     find_arrangement_backtrack order cur rem n found seated used =
       first_found
          (\<lambda>(score, person_added, creates_violation_this_step).
             find_arrangement_backtrack order (cur @ [person_added])
               (remove1 person_added rem) n found seated
               (used \<or> creates_violation_this_step))
          (possible_next_people order cur rem seated used)"
  unfolding find_arrangement_backtrack.simps[of order cur rem n found seated used] by simp

lemma search_first_success:
  assumes len: "length cur \<noteq> n"
    and split: "possible_next_people order cur rem seated used = before @ (s, p, v) # after"
    and fails: "\<forall>s' p' v'. (s', p', v') \<in> set before \<longrightarrow>
        find_arrangement_backtrack order (cur @ [p']) (remove1 p' rem) n found seated
          (used \<or> v') = Inr None"
    and succ: "find_arrangement_backtrack order (cur @ [p]) (remove1 p rem) n found seated
          (used \<or> v) = Inr (Some plan)"
  shows "find_arrangement_backtrack order cur rem n found seated used = Inr (Some plan)"
proof -
  let ?f = "\<lambda>(score, person_added, creates_violation_this_step).
             find_arrangement_backtrack order (cur @ [person_added])
               (remove1 person_added rem) n found seated
               (used \<or> creates_violation_this_step)"
  have a: "\<forall>b\<in>set before. ?f b = Inr None" using fails by auto
  have b: "?f (s, p, v) = Inr (Some plan)" using succ by simp
  have c: "plan \<noteq> []" using succ by (rule backtrack_plan_nonempty)
  show ?thesis
    unfolding backtrack_unfold_step[OF len] split by (rule first_found_first[OF a b c])
qed

lemma search_success_split:
  assumes len: "length cur \<noteq> n"
    and res: "find_arrangement_backtrack order cur rem n found seated used = Inr (Some plan)"
  shows "\<exists>before s p v after.
      possible_next_people order cur rem seated used = before @ (s, p, v) # after
      \<and> (\<forall>s' p' v'. (s', p', v') \<in> set before \<longrightarrow>
            find_arrangement_backtrack order (cur @ [p']) (remove1 p' rem) n found seated
              (used \<or> v') = Inr None)
      \<and> find_arrangement_backtrack order (cur @ [p]) (remove1 p rem) n found seated
            (used \<or> v) = Inr (Some plan)"
proof -
  let ?f = "\<lambda>(score, person_added, creates_violation_this_step).
             find_arrangement_backtrack order (cur @ [person_added])
               (remove1 person_added rem) n found seated
               (used \<or> creates_violation_this_step)"
  from res have "first_found ?f (possible_next_people order cur rem seated used)
      = Inr (Some plan)"
    unfolding backtrack_unfold_step[OF len] .
  from first_found_split[OF this] obtain before c after
    where sp: "possible_next_people order cur rem seated used = before @ c # after"
      and c: "?f c = Inr (Some plan)"
      and skip: "\<forall>b\<in>set before. ?f b = Inr None \<or> ?f b = Inr (Some [])" by blast
  obtain s p v where cc: "c = (s, p, v)" by (cases c) auto
  have "find_arrangement_backtrack order (cur @ [p']) (remove1 p' rem) n found seated
              (used \<or> v') = Inr None" if "(s', p', v') \<in> set before" for s' p' v'
  proof -
    from skip that have "?f (s', p', v') = Inr None \<or> ?f (s', p', v') = Inr (Some [])" by blast
    then have d: "find_arrangement_backtrack order (cur @ [p']) (remove1 p' rem) n found seated
              (used \<or> v') = Inr None
        \<or> find_arrangement_backtrack order (cur @ [p']) (remove1 p' rem) n found seated
              (used \<or> v') = Inr (Some [])" by simp
    then show ?thesis
    proof
      assume "find_arrangement_backtrack order (cur @ [p']) (remove1 p' rem) n found seated
              (used \<or> v') = Inr (Some [])"
      from backtrack_plan_nonempty[OF this] show ?thesis by simp
    qed
  qed
  moreover from c have "find_arrangement_backtrack order (cur @ [p]) (remove1 p rem) n found
      seated (used \<or> v) = Inr (Some plan)" unfolding cc by simp
  ultimately show ?thesis using sp unfolding cc by blast
qed

lemma possible_next_people_cong:
  "iterate order cur rem = iterate order' cur rem \<Longrightarrow>
     possible_next_people order cur rem seated used
       = possible_next_people order' cur rem seated used"
  by (simp add: possible_next_people_def)

lemma search_same_orders:
  "(\<forall>ext r. iterate order (cur @ ext) r = iterate order' (cur @ ext) r) \<Longrightarrow>
     find_arrangement_backtrack order cur rem n found seated used
       = find_arrangement_backtrack order' cur rem n found seated used"
proof (induction order cur rem n found seated used
    rule: find_arrangement_backtrack.induct)
  case (1 order cur rem n found seated used)
  show ?case
  proof (cases "length cur = n")
    case True
    then show ?thesis
      unfolding find_arrangement_backtrack.simps[of order cur rem n found seated used]
        find_arrangement_backtrack.simps[of order' cur rem n found seated used]
      by simp
  next
    case False
    from "1.prems" have "iterate order (cur @ []) rem = iterate order' (cur @ []) rem"
      by blast
    then have "iterate order cur rem = iterate order' cur rem" by simp
    then have pc: "possible_next_people order' cur rem seated used
       = possible_next_people order cur rem seated used"
      by (rule possible_next_people_cong[symmetric])
    have each: "find_arrangement_backtrack order (cur @ [p]) (remove1 p rem) n found seated
          (used \<or> v)
        = find_arrangement_backtrack order' (cur @ [p]) (remove1 p rem) n found seated
          (used \<or> v)"
      if c: "(s, p, v) \<in> set (possible_next_people order cur rem seated used)" for s p v
    proof (rule "1.IH"[OF False c refl refl])
      show "\<forall>ext r. iterate order ((cur @ [p]) @ ext) r = iterate order' ((cur @ [p]) @ ext) r"
      proof (intro allI)
        fix ext r
        from "1.prems" have "iterate order (cur @ ([p] @ ext)) r
            = iterate order' (cur @ ([p] @ ext)) r" by blast
        then show "iterate order ((cur @ [p]) @ ext) r = iterate order' ((cur @ [p]) @ ext) r"
          by simp
      qed
    qed
    show ?thesis
      unfolding backtrack_unfold_step[OF False] pc
      by (rule first_found_cong[OF refl]) (auto simp: each)
  qed
qed

lemma map_filter_people:
  "map (\<lambda>c. fst (snd c)) (List.map_filter (score_candidate l seated used) xs)
     = filter (\<lambda>q. score_candidate l seated used q \<noteq> None) xs"
proof (induction xs)
  case Nil
  show ?case by simp
next
  case (Cons x xs)
  show ?case
  proof (cases "score_candidate l seated used x")
    case None
    with Cons show ?thesis by simp
  next
    case (Some c)
    obtain s q v where c: "c = (s, q, v)" by (cases c) auto
    from Some have "q = x" unfolding c by (rule score_candidate_person)
    with Cons Some c show ?thesis by simp
  qed
qed

lemma candidates_all_visited:
  assumes "mset (order cur rem) = mset rem"
  shows "mset (map (\<lambda>c. fst (snd c)) (possible_next_people order cur rem seated used))
     = mset (filter (\<lambda>q. score_candidate (if cur = [] then None else Some (last cur))
                            seated used q \<noteq> None) rem)"
proof -
  let ?l = "if cur = [] then None else Some (last cur)"
  have "mset (map (\<lambda>c. fst (snd c)) (possible_next_people order cur rem seated used))
      = image_mset (\<lambda>c. fst (snd c))
          (mset (List.map_filter (score_candidate ?l seated used) (iterate order cur rem)))"
    by (simp add: possible_next_people_def)
  also have "\<dots> = mset (map (\<lambda>c. fst (snd c))
          (List.map_filter (score_candidate ?l seated used) (iterate order cur rem)))"
    by simp
  also have "\<dots> = mset (filter (\<lambda>q. score_candidate ?l seated used q \<noteq> None)
          (order cur rem))"
    unfolding map_filter_people
      iterate_permutation[where order = order and cur = cur and rem = rem, OF assms] ..
  also have "\<dots> = mset (filter (\<lambda>q. score_candidate ?l seated used q \<noteq> None) rem)"
    using assms by (simp only: mset_filter)
  finally show ?thesis .
qed


lemma seat_meal_same_orders:
  assumes "\<forall>c r. iterate order c r = iterate order' c r"
  shows "seat_meal order people m st = seat_meal order' people m st"
proof -
  from assms have "\<forall>ext r. iterate order ([] @ ext) r = iterate order' ([] @ ext) r" by simp
  then have e: "find_arrangement_backtrack order [] rem n found seated used
       = find_arrangement_backtrack order' [] rem n found seated used" for rem n found seated used
    by (rule search_same_orders)
  show ?thesis unfolding seat_meal_def e ..
qed

lemma seat_meals_same_orders:
  "\<forall>j c r. iterate (orders j) c r = iterate (orders' j) c r \<Longrightarrow>
     seat_meals orders people k ms st = seat_meals orders' people k ms st"
proof (induction ms arbitrary: st k)
  case Nil
  show ?case by simp
next
  case (Cons m ms)
  from Cons.prems have "\<forall>c r. iterate (orders k) c r = iterate (orders' k) c r" by blast
  then have "seat_meal (orders k) people m st = seat_meal (orders' k) people m st"
    by (rule seat_meal_same_orders)
  with Cons.IH[OF Cons.prems] show ?case by (auto split: sum.splits)
qed

lemma not_same_example3: "\<not> are_arrangements_same [alice, bob, carol] [carol, bob, alice]"
  by code_simp

text \<open>
  Claim C5, as stated, fails: the search loops over a Python \<^verbatim>\<open>set\<close>, and its result
  depends on the order in which that set is iterated. For the same three attendees, an empty
  ledger and no earlier arrangement, a run whose sets are iterated in registry order returns
  \<open>[alice, bob, carol]\<close> and a run whose sets are iterated in the reverse order returns
  \<open>[carol, bob, alice]\<close>, which is not even a rotation of the former.
\<close>

theorem search_depends_on_iteration_order:
  "find_arrangement_backtrack input_order [] [alice, bob, carol] 3 [] {} False
     = Inr (Some [alice, bob, carol])
   \<and> find_arrangement_backtrack reverse_order [] [alice, bob, carol] 3 [] {} False
     = Inr (Some [carol, bob, alice])
   \<and> find_arrangement_backtrack input_order [] [alice, bob, carol] 3 [] {} False
     \<noteq> find_arrangement_backtrack reverse_order [] [alice, bob, carol] 3 [] {} False
   \<and> \<not> are_arrangements_same [alice, bob, carol] [carol, bob, alice]"
proof -
  have "[alice, bob, carol] \<noteq> [carol, bob, alice]"
    by (simp add: alice_def carol_def)
  then have "find_arrangement_backtrack input_order [] [alice, bob, carol] 3 [] {} False
     \<noteq> find_arrangement_backtrack reverse_order [] [alice, bob, carol] 3 [] {} False"
    unfolding search_example3 search_example3_rev by simp
  then show ?thesis
    by (intro conjI search_example3 search_example3_rev not_same_example3)
qed

text \<open>
  Claim C5, amended. At every call of the search the candidates are in ascending order of
  score, and candidates of equal score are in the order in which that call iterates the set
  of remaining people: the sort is stable, and an iteration that is a permutation of the set
  makes every remaining person that passes the hard exclusions a candidate exactly once.
  The search tries the candidates in that order: it returns the arrangement found under the
  first candidate of the list whose own search succeeds, all candidates before it having
  failed, and a successful search is always of that form. The tie-break is therefore the
  iteration order of the set, not the original input order. The result is determined by the
  inputs together with the iteration orders: two searches whose calls iterate alike return
  the same result, and so do two planning runs whose passes iterate alike.
\<close>

theorem search_follows_iteration_order:
  "sorted (map fst (possible_next_people order cur rem seated used))
   \<and> filter (\<lambda>c. fst c = key) (possible_next_people order cur rem seated used)
       = filter (\<lambda>c. fst c = key)
           (List.map_filter
              (score_candidate (if cur = [] then None else Some (last cur)) seated used)
              (iterate order cur rem))
   \<and> (mset (order cur rem) = mset rem \<longrightarrow>
        iterate order cur rem = order cur rem
        \<and> mset (map (\<lambda>c. fst (snd c)) (possible_next_people order cur rem seated used))
            = mset (filter (\<lambda>q. score_candidate (if cur = [] then None else Some (last cur))
                                   seated used q \<noteq> None) rem))
   \<and> (length cur \<noteq> n \<longrightarrow>
        possible_next_people order cur rem seated used = before @ (s, p, v) # after \<longrightarrow>
        (\<forall>s' p' v'. (s', p', v') \<in> set before \<longrightarrow>
           find_arrangement_backtrack order (cur @ [p']) (remove1 p' rem) n found seated
             (used \<or> v') = Inr None) \<longrightarrow>
        find_arrangement_backtrack order (cur @ [p]) (remove1 p rem) n found seated
          (used \<or> v) = Inr (Some plan) \<longrightarrow>
        find_arrangement_backtrack order cur rem n found seated used = Inr (Some plan))
   \<and> (length cur \<noteq> n \<longrightarrow>
        find_arrangement_backtrack order cur rem n found seated used = Inr (Some plan) \<longrightarrow>
        (\<exists>before s p v after.
           possible_next_people order cur rem seated used = before @ (s, p, v) # after
           \<and> (\<forall>s' p' v'. (s', p', v') \<in> set before \<longrightarrow>
                 find_arrangement_backtrack order (cur @ [p']) (remove1 p' rem) n found seated
                   (used \<or> v') = Inr None)
           \<and> find_arrangement_backtrack order (cur @ [p]) (remove1 p rem) n found seated
                 (used \<or> v) = Inr (Some plan)))
   \<and> ((\<forall>ext r. iterate order (cur @ ext) r = iterate order' (cur @ ext) r) \<longrightarrow>
        find_arrangement_backtrack order cur rem n found seated used
          = find_arrangement_backtrack order' cur rem n found seated used)
   \<and> ((\<forall>j c r. iterate (orders j) c r = iterate (orders' j) c r) \<longrightarrow>
        seat_people orders people meal_names = seat_people orders' people meal_names)"
proof (intro conjI impI)
  show "sorted (map fst (possible_next_people order cur rem seated used))"
    by (simp add: possible_next_people_def Let_def)
  show "filter (\<lambda>c. fst c = key) (possible_next_people order cur rem seated used)
       = filter (\<lambda>c. fst c = key)
           (List.map_filter
              (score_candidate (if cur = [] then None else Some (last cur)) seated used)
              (iterate order cur rem))"
    unfolding possible_next_people_def Let_def by (rule sort_key_stable)
next
  assume "mset (order cur rem) = mset rem"
  then show "iterate order cur rem = order cur rem" by (rule iterate_permutation)
next
  assume "mset (order cur rem) = mset rem"
  then show "mset (map (\<lambda>c. fst (snd c)) (possible_next_people order cur rem seated used))
            = mset (filter (\<lambda>q. score_candidate (if cur = [] then None else Some (last cur))
                                   seated used q \<noteq> None) rem)"
    by (rule candidates_all_visited)
next
  assume "length cur \<noteq> n"
    "possible_next_people order cur rem seated used = before @ (s, p, v) # after"
    "\<forall>s' p' v'. (s', p', v') \<in> set before \<longrightarrow>
           find_arrangement_backtrack order (cur @ [p']) (remove1 p' rem) n found seated
             (used \<or> v') = Inr None"
    "find_arrangement_backtrack order (cur @ [p]) (remove1 p rem) n found seated
          (used \<or> v) = Inr (Some plan)"
  then show "find_arrangement_backtrack order cur rem n found seated used = Inr (Some plan)"
    by (rule search_first_success)
next
  assume "length cur \<noteq> n"
    "find_arrangement_backtrack order cur rem n found seated used = Inr (Some plan)"
  then show "\<exists>before s p v after.
           possible_next_people order cur rem seated used = before @ (s, p, v) # after
           \<and> (\<forall>s' p' v'. (s', p', v') \<in> set before \<longrightarrow>
                 find_arrangement_backtrack order (cur @ [p']) (remove1 p' rem) n found seated
                   (used \<or> v') = Inr None)
           \<and> find_arrangement_backtrack order (cur @ [p]) (remove1 p rem) n found seated
                 (used \<or> v) = Inr (Some plan)"
    by (rule search_success_split)
next
  assume "\<forall>ext r. iterate order (cur @ ext) r = iterate order' (cur @ ext) r"
  then show "find_arrangement_backtrack order cur rem n found seated used
          = find_arrangement_backtrack order' cur rem n found seated used"
    by (rule search_same_orders)
next
  assume "\<forall>j c r. iterate (orders j) c r = iterate (orders' j) c r"
  then have "seat_meals orders people 0 meal_names initial_state
      = seat_meals orders' people 0 meal_names initial_state"
    by (rule seat_meals_same_orders)
  then show "seat_people orders people meal_names = seat_people orders' people meal_names"
    by (simp add: seat_people_def)
qed


definition reverse_first_order :: set_order where
  "reverse_first_order current_arrangement remaining_people =
     (if current_arrangement = [] then rev remaining_people else remaining_people)"

lemma candidates_example_split:
  "possible_next_people input_order [alice, carol] [bob, dave, erin] {(''Alice'', ''Dave'')} True
     = [(0, bob, False)] @ (0, dave, False) # []"
  by code_simp

lemma candidate_bob_fails:
  "find_arrangement_backtrack input_order ([alice, carol] @ [bob])
       (remove1 bob [bob, dave, erin]) 5 [] {(''Alice'', ''Dave'')} (True \<or> False) = Inr None"
  by code_simp

lemma candidate_dave_succeeds:
  "find_arrangement_backtrack input_order ([alice, carol] @ [dave])
       (remove1 dave [bob, dave, erin]) 5 [] {(''Alice'', ''Dave'')} (True \<or> False)
     = Inr (Some [alice, carol, dave, erin, bob])"
  by code_simp

lemma tie_candidates_input:
  "possible_next_people input_order [alice] [bob, carol, dave] {} False
     = [] @ (0, bob, False) # [(0, dave, False), (50, carol, True)]"
  by code_simp

lemma tie_candidates_reverse:
  "possible_next_people reverse_order [alice] [bob, carol, dave] {} False
     = [] @ (0, dave, False) # [(0, bob, False), (50, carol, True)]"
  by code_simp

lemma tie_first_input:
  "find_arrangement_backtrack input_order ([alice] @ [bob]) (remove1 bob [bob, carol, dave]) 4 []
       {} (False \<or> False) = Inr (Some [alice, bob, carol, dave])"
  by code_simp

lemma tie_first_reverse:
  "find_arrangement_backtrack reverse_order ([alice] @ [dave]) (remove1 dave [bob, carol, dave])
       4 [] {} (False \<or> False) = Inr (Some [alice, dave, carol, bob])"
  by code_simp

theorem search_follows_iteration_order_witness:
  "possible_next_people input_order [alice, carol] [bob, dave, erin] {(''Alice'', ''Dave'')} True
     = [(0, bob, False)] @ (0, dave, False) # []
   \<and> find_arrangement_backtrack input_order ([alice, carol] @ [bob])
       (remove1 bob [bob, dave, erin]) 5 [] {(''Alice'', ''Dave'')} (True \<or> False) = Inr None
   \<and> find_arrangement_backtrack input_order ([alice, carol] @ [dave])
       (remove1 dave [bob, dave, erin]) 5 [] {(''Alice'', ''Dave'')} (True \<or> False)
     = Inr (Some [alice, carol, dave, erin, bob])
   \<and> find_arrangement_backtrack input_order [alice, carol] [bob, dave, erin] 5 []
       {(''Alice'', ''Dave'')} True = Inr (Some [alice, carol, dave, erin, bob])
   \<and> find_arrangement_backtrack input_order [alice, carol] [bob, dave, erin] 5 []
       {(''Alice'', ''Dave'')} True
     = find_arrangement_backtrack reverse_first_order [alice, carol] [bob, dave, erin] 5 []
       {(''Alice'', ''Dave'')} True
   \<and> iterate input_order [alice, carol] [bob, dave, erin] = [bob, dave, erin]
   \<and> sorted (map fst (possible_next_people input_order [alice, carol] [bob, dave, erin]
       {(''Alice'', ''Dave'')} True))
   \<and> possible_next_people input_order [alice] [bob, carol, dave] {} False
       = [] @ (0, bob, False) # [(0, dave, False), (50, carol, True)]
   \<and> find_arrangement_backtrack input_order [alice] [bob, carol, dave] 4 [] {} False
       = Inr (Some [alice, bob, carol, dave])
   \<and> possible_next_people reverse_order [alice] [bob, carol, dave] {} False
       = [] @ (0, dave, False) # [(0, bob, False), (50, carol, True)]
   \<and> find_arrangement_backtrack reverse_order [alice] [bob, carol, dave] 4 [] {} False
       = Inr (Some [alice, dave, carol, bob])"
proof -
  note u = search_follows_iteration_order[of input_order "[alice]" "[bob, carol, dave]"
      "{}" False 0 4 "[]" 0 bob False "[(0, dave, False), (50, carol, True)]" "[]"
      "[alice, bob, carol, dave]" input_order]
  note w = search_follows_iteration_order[of reverse_order "[alice]" "[bob, carol, dave]"
      "{}" False 0 4 "[]" 0 dave False "[(0, bob, False), (50, carol, True)]" "[]"
      "[alice, dave, carol, bob]" reverse_order]
  note u4 = u[THEN conjunct2, THEN conjunct2, THEN conjunct2, THEN conjunct1]
  note w4 = w[THEN conjunct2, THEN conjunct2, THEN conjunct2, THEN conjunct1]
  have len1: "length [alice] \<noteq> 4" by simp
  have none_u: "\<forall>s' p' v'. (s', p', v') \<in> set [] \<longrightarrow>
           find_arrangement_backtrack input_order ([alice] @ [p'])
             (remove1 p' [bob, carol, dave]) 4 [] {} (False \<or> v') = Inr None" by simp
  have none_w: "\<forall>s' p' v'. (s', p', v') \<in> set [] \<longrightarrow>
           find_arrangement_backtrack reverse_order ([alice] @ [p'])
             (remove1 p' [bob, carol, dave]) 4 [] {} (False \<or> v') = Inr None" by simp
  have e: "find_arrangement_backtrack input_order [alice] [bob, carol, dave] 4 [] {} False
       = Inr (Some [alice, bob, carol, dave])"
    by (rule u4[THEN mp, THEN mp, THEN mp, THEN mp,
          OF len1 tie_candidates_input none_u tie_first_input])
  have f: "find_arrangement_backtrack reverse_order [alice] [bob, carol, dave] 4 [] {} False
       = Inr (Some [alice, dave, carol, bob])"
    by (rule w4[THEN mp, THEN mp, THEN mp, THEN mp,
          OF len1 tie_candidates_reverse none_w tie_first_reverse])
  note t = search_follows_iteration_order[of input_order "[alice, carol]" "[bob, dave, erin]"
      "{(''Alice'', ''Dave'')}" True 0 5 "[(0, bob, False)]" 0 dave False "[]" "[]"
      "[alice, carol, dave, erin, bob]" reverse_first_order]
  have len: "length [alice, carol] \<noteq> 5" by simp
  have fails: "\<forall>s' p' v'. (s', p', v') \<in> set [(0, bob, False)] \<longrightarrow>
           find_arrangement_backtrack input_order ([alice, carol] @ [p'])
             (remove1 p' [bob, dave, erin]) 5 [] {(''Alice'', ''Dave'')} (True \<or> v') = Inr None"
    using candidate_bob_fails by simp
  have agree: "\<forall>ext r. iterate input_order ([alice, carol] @ ext) r
      = iterate reverse_first_order ([alice, carol] @ ext) r"
    by (simp add: iterate_def input_order_def reverse_first_order_def)
  have perm: "mset (input_order [alice, carol] [bob, dave, erin]) = mset [bob, dave, erin]"
    by (simp add: input_order_def)
  note t1 = t[THEN conjunct1]
  note t3 = t[THEN conjunct2, THEN conjunct2, THEN conjunct1]
  note t4 = t[THEN conjunct2, THEN conjunct2, THEN conjunct2, THEN conjunct1]
  note t6 = t[THEN conjunct2, THEN conjunct2, THEN conjunct2, THEN conjunct2, THEN conjunct2,
      THEN conjunct1]
  have a: "sorted (map fst (possible_next_people input_order [alice, carol]
      [bob, dave, erin] {(''Alice'', ''Dave'')} True))" by (rule t1)
  have b: "find_arrangement_backtrack input_order [alice, carol] [bob, dave, erin] 5 []
       {(''Alice'', ''Dave'')} True = Inr (Some [alice, carol, dave, erin, bob])"
    by (rule t4[THEN mp, THEN mp, THEN mp, THEN mp,
          OF len candidates_example_split fails candidate_dave_succeeds])
  have c: "find_arrangement_backtrack input_order [alice, carol] [bob, dave, erin] 5 []
       {(''Alice'', ''Dave'')} True
     = find_arrangement_backtrack reverse_first_order [alice, carol] [bob, dave, erin] 5 []
       {(''Alice'', ''Dave'')} True"
    by (rule t6[THEN mp, OF agree])
  have "iterate input_order [alice, carol] [bob, dave, erin]
      = input_order [alice, carol] [bob, dave, erin]"
    by (rule t3[THEN mp, OF perm, THEN conjunct1])
  then have d: "iterate input_order [alice, carol] [bob, dave, erin] = [bob, dave, erin]"
    by (simp add: input_order_def)
  show ?thesis
    by (intro conjI candidates_example_split candidate_bob_fails candidate_dave_succeeds b c d a
        tie_candidates_input e tie_candidates_reverse f)
qed

section \<open>Growth of the ledger\<close>

lemma canonical_pair_commute: "canonical_pair a b = canonical_pair b a"
  by (auto simp: canonical_pair_def)

lemma canonical_pair_eq:
  "canonical_pair a b = canonical_pair c d \<Longrightarrow> (a = c \<and> b = d) \<or> (a = d \<and> b = c)"
  by (auto simp: canonical_pair_def split: if_splits)

lemma distinct_map_submset:
  assumes "mset xs \<subseteq># mset ys" "distinct (map f ys)"
  shows "distinct (map f xs)"
proof -
  from assms(1) have sub: "mset (map f xs) \<subseteq># mset (map f ys)"
    by (simp add: image_mset_subseteq_mono)
  have "count (mset (map f xs)) a = (if a \<in> set (map f xs) then 1 else 0)" for a
  proof (cases "a \<in> set (map f xs)")
    case True
    then have "0 < count (mset (map f xs)) a" by (simp only: count_mset_gt_0)
    moreover have "count (mset (map f xs)) a \<le> count (mset (map f ys)) a"
      using sub by (rule mset_subset_eq_count)
    moreover have "count (mset (map f ys)) a \<le> 1"
    proof -
      from assms(2)[unfolded distinct_count_atmost_1]
      have "count (mset (map f ys)) a = (if a \<in> set (map f ys) then 1 else 0)" ..
      then show ?thesis by (simp split: if_splits)
    qed
    ultimately have "count (mset (map f xs)) a = 1" by linarith
    with True show ?thesis by (simp only: if_True)
  next
    case False
    then have "count (mset (map f xs)) a = 0" by (simp only: count_mset_0_iff not_False_eq_True)
    with False show ?thesis by (simp only: if_False)
  qed
  then show ?thesis by (simp only: distinct_count_atmost_1 simp_thms)
qed

lemma step_mod_clash:
  assumes "i < n" "j < n" "3 \<le> n" "i = Suc j mod n" "j = Suc i mod n"
  shows False
proof (cases "Suc j = n")
  case True
  with assms(4) have "i = 0" by simp
  with assms(5) assms(3) have "j = 1" by simp
  with True assms(3) show False by simp
next
  case False
  with assms(2) have "Suc j < n" by simp
  with assms(4) have i: "i = Suc j" by simp
  show False
  proof (cases "Suc i = n")
    case True
    with assms(5) have "j = 0" by simp
    with i True assms(3) show False by simp
  next
    case False
    with assms(1) have "Suc i < n" by simp
    with assms(5) i show False by simp
  qed
qed

lemma nth_neighbours:
  "i < length xs \<Longrightarrow> neighbours xs ! i = (xs ! i, xs ! (Suc i mod length xs))"
  by (simp add: neighbours_def)

lemma nth_pair_names:
  "k < length arr \<Longrightarrow>
     map pair_names (neighbours arr) ! k
       = canonical_pair (name (arr ! k)) (name (arr ! (Suc k mod length arr)))"
  by (simp add: nth_neighbours pair_names_def)

lemma distinct_pair_names:
  assumes d: "distinct (map name arr)" and n: "3 \<le> length arr"
  shows "distinct (map pair_names (neighbours arr))"
proof -
  have inj: "i = j" if "name (arr ! i) = name (arr ! j)" "i < length arr" "j < length arr" for i j
  proof -
    from that have e: "map name arr ! i = map name arr ! j" by simp
    from d have "(map name arr ! i = map name arr ! j) = (i = j)"
      by (rule nth_eq_iff_index_eq) (simp_all add: that)
    with e show ?thesis by (simp only:)
  qed
  have pos: "0 < length arr" using n by linarith
  have neq: "map pair_names (neighbours arr) ! i \<noteq> map pair_names (neighbours arr) ! j"
    if ij: "i < length arr" "j < length arr" "i \<noteq> j" for i j
  proof
    assume "map pair_names (neighbours arr) ! i = map pair_names (neighbours arr) ! j"
    then have "canonical_pair (name (arr ! i)) (name (arr ! (Suc i mod length arr)))
        = canonical_pair (name (arr ! j)) (name (arr ! (Suc j mod length arr)))"
      unfolding nth_pair_names[OF ij(1)] nth_pair_names[OF ij(2)] .
    from canonical_pair_eq[OF this]
    have "name (arr ! i) = name (arr ! j)
        \<or> (name (arr ! i) = name (arr ! (Suc j mod length arr))
            \<and> name (arr ! (Suc i mod length arr)) = name (arr ! j))" by blast
    then show False
    proof
      assume "name (arr ! i) = name (arr ! j)"
      from inj[OF this ij(1,2)] ij(3) show False by simp
    next
      assume a: "name (arr ! i) = name (arr ! (Suc j mod length arr))
            \<and> name (arr ! (Suc i mod length arr)) = name (arr ! j)"
      have mi: "Suc i mod length arr < length arr" using pos by (rule mod_less_divisor)
      have mj: "Suc j mod length arr < length arr" using pos by (rule mod_less_divisor)
      from a have a1: "name (arr ! i) = name (arr ! (Suc j mod length arr))" ..
      from a have a2: "name (arr ! (Suc i mod length arr)) = name (arr ! j)" ..
      have e1: "i = Suc j mod length arr" by (rule inj[OF a1 ij(1) mj])
      have e2: "j = Suc i mod length arr" by (rule inj[OF a2 mi ij(2), symmetric])
      show False by (rule step_mod_clash[OF ij(1,2) n e1 e2])
    qed
  qed
  show ?thesis
  proof (unfold distinct_conv_nth, intro allI impI)
    fix i j
    assume "i < length (map pair_names (neighbours arr))"
      "j < length (map pair_names (neighbours arr))" "i \<noteq> j"
    then have "i < length arr" "j < length arr" "i \<noteq> j" by simp_all
    then show "map pair_names (neighbours arr) ! i \<noteq> map pair_names (neighbours arr) ! j"
      by (rule neq)
  qed
qed

text \<open>
  The number of distinct canonical pairs of an arrangement of \<open>n\<close> people with distinct
  names: the two adjacencies of a table of two are the same pair, and from three people on
  the \<open>n\<close> adjacencies are \<open>n\<close> different pairs.
\<close>

definition pair_count :: "nat \<Rightarrow> nat" where
  "pair_count n = (if n = 2 then 1 else n)"

lemma card_pair_names:
  assumes d: "distinct (map name arr)" and n: "2 \<le> length arr"
  shows "card (pair_names ` set (neighbours arr)) = pair_count (length arr)"
proof (cases "length arr = 2")
  case True
  then obtain a b where arr: "arr = [a, b]"
    by (cases arr; cases "tl arr") auto
  have "neighbours [a, b] = [(a, b), (b, a)]"
    by (simp add: neighbours_Cons)
  then have "pair_names ` set (neighbours arr) = {canonical_pair (name a) (name b)}"
    unfolding arr by (simp add: pair_names_def canonical_pair_commute[of "name b" "name a"])
  with True show ?thesis by (simp add: pair_count_def)
next
  case False
  with n have 3: "3 \<le> length arr" by linarith
  have "card (set (map pair_names (neighbours arr))) = length (map pair_names (neighbours arr))"
    by (rule distinct_card) (rule distinct_pair_names[OF d 3])
  with False show ?thesis by (simp add: pair_count_def)
qed


text \<open>
  What the events listed under one identifier contribute to the ledger: nothing for fewer
  than two attendees, and otherwise \<open>pair_count\<close> of the attendee count for each
  arrangement in the identifier's plan.
\<close>

definition ledger_share :: "person list \<Rightarrow> (string \<rightharpoonup> person list list) \<Rightarrow> string \<Rightarrow> nat" where
  "ledger_share people plans m =
     (let n = length (attendees_this_meal people m)
      in if n < 2 then 0 else length (arrangements_found_before plans m) * pair_count n)"

lemma ledger_share_cong:
  "plans m = plans' m \<Longrightarrow> ledger_share people plans m = ledger_share people plans' m"
  by (simp add: ledger_share_def Let_def arrangements_found_before_def)

lemma ledger_share_small:
  "length (attendees_this_meal people m) \<le> 1 \<Longrightarrow> ledger_share people plans m = 0"
  by (simp add: ledger_share_def)

lemma ledger_share_big:
  "2 \<le> length (attendees_this_meal people m) \<Longrightarrow>
     ledger_share people plans m =
       length (arrangements_found_before plans m)
         * pair_count (length (attendees_this_meal people m))"
  by (simp add: ledger_share_def Let_def)

lemma found_before_update [simp]:
  "arrangements_found_before (plans(m \<mapsto> arrs)) m = arrs"
  by (simp add: arrangements_found_before_def)

lemma finite_record_pairs: "finite seated \<Longrightarrow> finite (record_pairs arr seated)"
  by (simp add: record_pairs_eq)

lemma ledger_step:
  assumes d: "distinct (map name people)"
    and step: "seat_meal order people m st = Inr st'"
    and fin: "finite (all_seated_neighbour_pairs_globally st)"
  shows "finite (all_seated_neighbour_pairs_globally st')
     \<and> card (all_seated_neighbour_pairs_globally st')
          + ledger_share people (final_seating_arrangements st) m
        = card (all_seated_neighbour_pairs_globally st)
          + ledger_share people (final_seating_arrangements st') m"
proof (cases "2 \<le> length (attendees_this_meal people m)")
  case False
  then have le: "length (attendees_this_meal people m) \<le> 1" by linarith
  from step have "all_seated_neighbour_pairs_globally st' = all_seated_neighbour_pairs_globally st"
    unfolding seat_meal_small[OF le] by auto
  with fin show ?thesis by (simp add: ledger_share_small[OF le])
next
  case True
  then have nz: "length (attendees_this_meal people m) \<noteq> 0" by linarith
  let ?before = "arrangements_found_before (final_seating_arrangements st) m"
  let ?led = "all_seated_neighbour_pairs_globally st"
  show ?thesis
  proof (rule search_result_cases[OF nz, of order "attendees_this_meal people m" ?before ?led])
    fix arr
    assume r: "find_arrangement_backtrack order [] (attendees_this_meal people m)
           (length (attendees_this_meal people m)) ?before ?led False = Inr (Some arr)"
    note snd = search_sound[OF r]
    from snd have len: "length arr = length (attendees_this_meal people m)" by (elim conjE)
    from snd have sub: "mset arr \<subseteq># mset (attendees_this_meal people m)" by (elim conjE)
    from snd have fresh: "fresh_pairs ?led (neighbours arr)" by (elim conjE)
    from d have "distinct (map name (attendees_this_meal people m))"
      unfolding attendees_this_meal_def by (rule distinct_map_filter)
    with sub have da: "distinct (map name arr)" by (rule distinct_map_submset)
    from True len have "2 \<le> length arr" by simp
    with da have c: "card (pair_names ` set (neighbours arr)) = pair_count (length arr)"
      by (rule card_pair_names)
    from fresh have dis: "?led \<inter> pair_names ` set (neighbours arr) = {}"
      unfolding fresh_pairs_iff by blast
    from seat_meal_found[OF True r] step
    have st': "st' = \<lparr>final_seating_arrangements = (final_seating_arrangements st)
               (m \<mapsto> ?before @ [arr]),
            all_seated_neighbour_pairs_globally = record_pairs arr ?led\<rparr>" by simp
    have f: "finite (all_seated_neighbour_pairs_globally st')"
      unfolding st' using fin by (simp add: finite_record_pairs)
    have "card (all_seated_neighbour_pairs_globally st')
        = card ?led + card (pair_names ` set (neighbours arr))"
      unfolding st' using fin dis by (simp add: record_pairs_eq card_Un_disjoint)
    then have k: "card (all_seated_neighbour_pairs_globally st')
        = card ?led + pair_count (length (attendees_this_meal people m))"
      unfolding c len .
    have "ledger_share people (final_seating_arrangements st') m
        = ledger_share people (final_seating_arrangements st) m
          + pair_count (length (attendees_this_meal people m))"
      unfolding ledger_share_big[OF True] st' by simp
    with k f show ?thesis by simp
  next
    assume r: "find_arrangement_backtrack order [] (attendees_this_meal people m)
           (length (attendees_this_meal people m)) ?before ?led False = Inr None"
    from seat_meal_failed[OF True r] step
    have st': "st' = (if final_seating_arrangements st m = None
            then st\<lparr>final_seating_arrangements := (final_seating_arrangements st)(m \<mapsto> [])\<rparr>
            else st)" by simp
    have l: "all_seated_neighbour_pairs_globally st' = ?led"
      unfolding st' by simp
    have "arrangements_found_before (final_seating_arrangements st') m = ?before"
      unfolding st' by (simp add: arrangements_found_before_def)
    then have "ledger_share people (final_seating_arrangements st') m
        = ledger_share people (final_seating_arrangements st) m"
      by (simp add: ledger_share_def Let_def)
    with l fin show ?thesis by simp
  qed
qed

lemma ledger_run:
  assumes d: "distinct (map name people)" and S: "finite S"
  shows "set ms \<subseteq> S \<Longrightarrow> finite (all_seated_neighbour_pairs_globally st) \<Longrightarrow>
     card (all_seated_neighbour_pairs_globally st)
       = (\<Sum>m\<in>S. ledger_share people (final_seating_arrangements st) m) \<Longrightarrow>
     seat_meals orders people k ms st = Inr st' \<Longrightarrow>
     finite (all_seated_neighbour_pairs_globally st')
     \<and> card (all_seated_neighbour_pairs_globally st')
       = (\<Sum>m\<in>S. ledger_share people (final_seating_arrangements st') m)"
proof (induction ms arbitrary: st k)
  case Nil
  then show ?case by simp
next
  case (Cons x ms)
  from seat_meal_total obtain st1 where s: "seat_meal (orders k) people x st = Inr st1" by blast
  with Cons.prems(4) have r: "seat_meals orders people (Suc k) ms st1 = Inr st'" by simp
  from Cons.prems(1) have x: "x \<in> S" and ms: "set ms \<subseteq> S" by simp_all
  note ls = ledger_step[OF d s Cons.prems(2)]
  from ls have f1: "finite (all_seated_neighbour_pairs_globally st1)" ..
  from ls have e: "card (all_seated_neighbour_pairs_globally st1)
          + ledger_share people (final_seating_arrangements st) x
        = card (all_seated_neighbour_pairs_globally st)
          + ledger_share people (final_seating_arrangements st1) x" ..
  have other: "ledger_share people (final_seating_arrangements st1) m'
      = ledger_share people (final_seating_arrangements st) m'" if "m' \<in> S - {x}" for m'
  proof -
    from that have "m' \<noteq> x" by simp
    from seat_meal_other_key[OF s this] show ?thesis by (rule ledger_share_cong)
  qed
  have rest: "(\<Sum>m\<in>S - {x}. ledger_share people (final_seating_arrangements st1) m)
      = (\<Sum>m\<in>S - {x}. ledger_share people (final_seating_arrangements st) m)"
    by (rule sum.cong) (simp_all add: other)
  have s0: "(\<Sum>m\<in>S. ledger_share people (final_seating_arrangements st) m)
      = ledger_share people (final_seating_arrangements st) x
        + (\<Sum>m\<in>S - {x}. ledger_share people (final_seating_arrangements st) m)"
    using S x by (rule sum.remove)
  have s1: "(\<Sum>m\<in>S. ledger_share people (final_seating_arrangements st1) m)
      = ledger_share people (final_seating_arrangements st1) x
        + (\<Sum>m\<in>S - {x}. ledger_share people (final_seating_arrangements st1) m)"
    using S x by (rule sum.remove)
  from e Cons.prems(3) s0 s1 rest
  have c1: "card (all_seated_neighbour_pairs_globally st1)
       = (\<Sum>m\<in>S. ledger_share people (final_seating_arrangements st1) m)" by linarith
  from Cons.IH[OF ms f1 c1 r] show ?case .
qed

lemma ledger_step_mono:
  assumes "seat_meal order people m st = Inr st'"
  shows "all_seated_neighbour_pairs_globally st \<subseteq> all_seated_neighbour_pairs_globally st'"
proof (cases "2 \<le> length (attendees_this_meal people m)")
  case False
  then have le: "length (attendees_this_meal people m) \<le> 1" by linarith
  from assms show ?thesis unfolding seat_meal_small[OF le] by auto
next
  case True
  then have nz: "length (attendees_this_meal people m) \<noteq> 0" by linarith
  show ?thesis
  proof (rule search_result_cases[OF nz, of order "attendees_this_meal people m"
            "arrangements_found_before (final_seating_arrangements st) m"
            "all_seated_neighbour_pairs_globally st"])
    fix arr
    assume "find_arrangement_backtrack order [] (attendees_this_meal people m)
           (length (attendees_this_meal people m))
           (arrangements_found_before (final_seating_arrangements st) m)
           (all_seated_neighbour_pairs_globally st) False = Inr (Some arr)"
    from seat_meal_found[OF True this] assms show ?thesis
      by (auto simp: record_pairs_eq)
  next
    assume "find_arrangement_backtrack order [] (attendees_this_meal people m)
           (length (attendees_this_meal people m))
           (arrangements_found_before (final_seating_arrangements st) m)
           (all_seated_neighbour_pairs_globally st) False = Inr None"
    from seat_meal_failed[OF True this] assms show ?thesis
      by (auto split: if_splits)
  qed
qed

lemma ledger_run_mono:
  "seat_meals orders people k ms st = Inr st' \<Longrightarrow>
     all_seated_neighbour_pairs_globally st \<subseteq> all_seated_neighbour_pairs_globally st'"
proof (induction ms arbitrary: st k)
  case Nil
  then show ?case by simp
next
  case (Cons x ms)
  from seat_meal_total obtain st1 where s: "seat_meal (orders k) people x st = Inr st1" by blast
  with Cons.prems have r: "seat_meals orders people (Suc k) ms st1 = Inr st'" by simp
  from ledger_step_mono[OF s] Cons.IH[OF r] show ?case by (rule subset_trans)
qed


lemma card_ledger_example2: "card (all_seated_neighbour_pairs_globally state_after_first) = 1"
  by (simp add: state_after_first_simps)

text \<open>
  Claim C3, as stated, fails for an event with exactly two attendees: the arrangement
  \<open>[alice, bob]\<close> is accepted, its two adjacencies (the pair and its wrap-around) are the
  same canonical pair, and the ledger holds one element, not the attendee count 2.
\<close>

theorem ledger_size_two_attendees:
  "seat_meals (every_pass input_order) [alice, bob] 0 [''m''] initial_state = Inr state_after_first
   \<and> length (attendees_this_meal [alice, bob] ''m'') = 2
   \<and> final_seating_arrangements state_after_first ''m'' = Some [[alice, bob]]
   \<and> all_seated_neighbour_pairs_globally state_after_first = {(''Alice'', ''Bob'')}
   \<and> card (all_seated_neighbour_pairs_globally state_after_first) = 1
   \<and> card (all_seated_neighbour_pairs_globally state_after_first)
        \<noteq> length (attendees_this_meal [alice, bob] ''m'')"
proof -
  have run: "seat_meals (every_pass input_order) [alice, bob] 0 [''m''] initial_state = Inr state_after_first"
    by (simp add: seat_meal_example2)
  have l: "length (attendees_this_meal [alice, bob] ''m'') = 2"
    by (simp add: attendees_example2)
  have p: "final_seating_arrangements state_after_first ''m'' = Some [[alice, bob]]"
    by (simp add: state_after_first_simps)
  have n: "card (all_seated_neighbour_pairs_globally state_after_first)
        \<noteq> length (attendees_this_meal [alice, bob] ''m'')"
    unfolding card_ledger_example2 l by simp
  show ?thesis
    by (intro conjI run l p state_after_first_simps(2) card_ledger_example2 n)
qed

text \<open>
  Claim C3, amended. Over any stretch of a planning run the ledger only gains elements.
  With distinct names in the registry, the size of the ledger after a run from the empty
  ledger is the sum, over the event identifiers of the list, of the contributions of the
  arrangements accepted for them: the attendee count for each accepted arrangement of an
  event with three or more attendees, and 1 for each accepted arrangement of an event with
  exactly two attendees.
\<close>

theorem ledger_growth:
  "(seat_meals orders people k ms st0 = Inr st1 \<longrightarrow>
      all_seated_neighbour_pairs_globally st0 \<subseteq> all_seated_neighbour_pairs_globally st1)
   \<and> (distinct (map name people) \<longrightarrow>
        seat_meals orders people 0 meal_names initial_state = Inr st \<longrightarrow>
        card (all_seated_neighbour_pairs_globally st)
          = (\<Sum>m\<in>set meal_names. ledger_share people (final_seating_arrangements st) m))"
proof (intro conjI impI)
  assume "seat_meals orders people k ms st0 = Inr st1"
  then show "all_seated_neighbour_pairs_globally st0 \<subseteq> all_seated_neighbour_pairs_globally st1"
    by (rule ledger_run_mono)
next
  assume d: "distinct (map name people)"
    and run: "seat_meals orders people 0 meal_names initial_state = Inr st"
  have f: "finite (all_seated_neighbour_pairs_globally initial_state)"
    by (simp add: initial_state_simps)
  have z: "card (all_seated_neighbour_pairs_globally initial_state)
       = (\<Sum>m\<in>set meal_names.
            ledger_share people (final_seating_arrangements initial_state) m)"
    by (simp add: initial_state_simps ledger_share_def Let_def)
  have fs: "finite (set meal_names)" by simp
  from ledger_run[OF d fs subset_refl f z run]
  show "card (all_seated_neighbour_pairs_globally st)
          = (\<Sum>m\<in>set meal_names. ledger_share people (final_seating_arrangements st) m)" ..
qed

definition state_after_three :: planner_state where
  "state_after_three =
     \<lparr>final_seating_arrangements = [''m'' \<mapsto> [[alice, bob, carol]]],
      all_seated_neighbour_pairs_globally =
        {(''Alice'', ''Bob''), (''Bob'', ''Carol''), (''Alice'', ''Carol'')}\<rparr>"

lemma record_pairs_example3:
  "record_pairs [alice, bob, carol] {}
     = {(''Alice'', ''Bob''), (''Bob'', ''Carol''), (''Alice'', ''Carol'')}"
  by code_simp

lemma seat_meals_example3:
  "seat_meals (every_pass input_order) [alice, bob, carol] 0 [''m''] initial_state = Inr state_after_three"
proof -
  have two: "2 \<le> length (attendees_this_meal [alice, bob, carol] ''m'')"
    by (simp add: attendees_example3)
  have s: "find_arrangement_backtrack input_order [] (attendees_this_meal [alice, bob, carol] ''m'')
           (length (attendees_this_meal [alice, bob, carol] ''m''))
           (arrangements_found_before (final_seating_arrangements initial_state) ''m'')
           (all_seated_neighbour_pairs_globally initial_state) False
         = Inr (Some [alice, bob, carol])"
    by (simp only: attendees_example3 length_example3 initial_state_simps search_example3)
  show ?thesis
    by (simp add: seat_meal_found[OF two s] initial_state_simps record_pairs_example3
        state_after_three_def)
qed

lemma ledger_share_example3:
  "ledger_share [alice, bob, carol] (final_seating_arrangements state_after_three) ''m'' = 3"
  by (simp add: ledger_share_def Let_def attendees_example3 state_after_three_def
      pair_count_def)

theorem ledger_growth_witness:
  "seat_meals (every_pass input_order) [alice, bob, carol] 0 [''m''] initial_state = Inr state_after_three
   \<and> distinct (map name [alice, bob, carol])
   \<and> all_seated_neighbour_pairs_globally initial_state
        \<subseteq> all_seated_neighbour_pairs_globally state_after_three
   \<and> card (all_seated_neighbour_pairs_globally state_after_three)
        = (\<Sum>m\<in>set [''m''].
             ledger_share [alice, bob, carol] (final_seating_arrangements state_after_three) m)
   \<and> ledger_share [alice, bob, carol] (final_seating_arrangements state_after_three) ''m'' = 3"
proof -
  have d: "distinct (map name [alice, bob, carol])"
    by (simp add: alice_def bob_def carol_def)
  note g = ledger_growth[of "every_pass input_order" "[alice, bob, carol]" 0 "[''m'']"
      initial_state state_after_three "[''m'']" state_after_three]
  from g seat_meals_example3
  have a: "all_seated_neighbour_pairs_globally initial_state
        \<subseteq> all_seated_neighbour_pairs_globally state_after_three" by blast
  from g d seat_meals_example3
  have b: "card (all_seated_neighbour_pairs_globally state_after_three)
        = (\<Sum>m\<in>set [''m''].
             ledger_share [alice, bob, carol] (final_seating_arrangements state_after_three) m)"
    by blast
  show ?thesis by (intro conjI seat_meals_example3 d a b ledger_share_example3)
qed

end
